theory Spec2Isabelle
  imports Main "HOL-Library.Code_Target_Nat"
begin

section \<open>The process environment\<close>

text \<open>
  The program \<^verbatim>\<open>example_argparse_usage.py\<close> parses its command line, configures the
  root logger and counts the lines of a text file. Everything it does beyond computing
  is an effect on the process environment, which is modelled by an explicit
  \<open>world\<close> that every function takes and returns.

  \<^item> Strings are byte strings (\<open>string\<close>). The process runs with UTF-8 as its file
    system encoding and with streams that encode as the arguments were decoded (Python's
    UTF-8 mode): an argument is the bytes the operating system passes, and a text that
    is printed is the bytes that reach the stream. Where the library looks at characters
    (the digit test of argparse, reading a text file) the bytes are decoded as the
    library decodes them. A logging handler escapes what its stream cannot encode; this
    is not modelled, so a record is given as the bytes of its text.
  \<^item> Which file a path denotes is decided by the operating system (working directory,
    dot segments, links): the world carries this as the function \<open>file_of\<close>, and the
    file system maps a file to its entry. Two spellings of one file have the same
    \<open>file_of\<close>; a path that denotes no file yet has the file that opening it for
    writing would create. The program creates no directory or link and removes
    nothing, so \<open>file_of\<close> does not change during a run.
  \<^item> An exception that nothing catches ends \<open>main\<close> with the outcome \<open>Uncaught\<close>;
    the traceback the interpreter then prints is not part of \<open>main\<close>.
  \<^item> The library functions (\<open>argparse\<close>, \<open>logging\<close>, \<open>open\<close>, \<open>os.path.exists\<close>)
    are modelled after CPython 3.11, to the extent this program uses them.
\<close>

datatype py_exception =
  FileNotFoundError | IsADirectoryError | PermissionError | UnicodeDecodeError | ValueError

text \<open>
  How a run of \<open>main\<close> ends: it returns, \<open>sys.exit\<close> is called (by argparse), or an
  exception reaches the top level.
\<close>

datatype outcome = Returned | SystemExit nat | Uncaught py_exception

fun exit_code :: "outcome \<Rightarrow> nat" where
  "exit_code Returned = 0"
| "exit_code (SystemExit n) = n"
| "exit_code (Uncaught e) = 1"

text \<open>A file system entry: a directory, or a file with its read and write permission and its bytes.\<close>

datatype entry = Directory | File bool bool string

text \<open>A call into the file system, with the path as the program wrote it.\<close>

datatype fs_access = Exists string | Open_read string | Open_append string

text \<open>
  The actions of the argument parser (the positional \<open>filepath\<close>, the three options
  and the help option argparse adds) and the errors it reports.
\<close>

datatype action = Help | Filepath | Test | Log_level | Log_to_file

datatype argument_error =
  Expected_one_argument | Ignored_explicit_argument string | Invalid_choice string

datatype usage_error =
  Ambiguous_option string "string list"
| Argument_error action argument_error
| Required_arguments "string list"
| Unrecognized_arguments "string list"

text \<open>
  What is written to a console stream, one chunk per call that writes (\<open>print\<close>, a
  logging handler, a message of argparse): literal text, or one of the messages argparse
  formats itself (their layout depends on the terminal width).
\<close>

datatype chunk = Text string | Usage_message | Error_message usage_error | Help_message

text \<open>The five levels the program can log at or be configured with, and the two record formats in play.\<close>

datatype level = DEBUG | INFO | WARNING | ERROR | CRITICAL

datatype log_format = BASIC_FORMAT | Asctime_levelname_message

datatype handler = StreamHandler log_format | FileHandler string log_format

text \<open>
  \<open>file_of\<close> gives the file a path denotes and \<open>fs\<close> the entry of a file that
  exists; \<open>cwd_writable\<close> says whether a new file can be created. \<open>accesses\<close> and
  \<open>log_calls\<close> are traces: every file system call and every call of \<open>logging.info\<close>
  or \<open>logging.error\<close> the program has made, in order. \<open>asctime\<close> is the local time
  as \<open>%Y-%m-%d %H:%M:%S\<close> formats it.
\<close>

type_synonym file_id = string

record world =
  file_of :: "string \<Rightarrow> file_id"
  fs :: "file_id \<Rightarrow> entry option"
  cwd_writable :: bool
  accesses :: "fs_access list"
  stdout :: "chunk list"
  stderr :: "chunk list"
  root_level :: nat
  root_handlers :: "handler list"
  log_calls :: "(level \<times> string) list"
  asctime :: string

section \<open>Library functions the program calls\<close>

subsection \<open>Text files: UTF-8 decoding and universal newlines\<close>

definition continuation :: "nat \<Rightarrow> bool" where
  "continuation b = (0x80 \<le> b \<and> b \<le> 0xBF)"

text \<open>The strict UTF-8 decoder: bytes to code points, \<open>None\<close> where Python raises UnicodeDecodeError.\<close>

fun utf8_decode :: "nat list \<Rightarrow> nat list option" where
  "utf8_decode [] = Some []"
| "utf8_decode (b0 # bs) =
     (if b0 < 0x80 then map_option ((#) b0) (utf8_decode bs)
      else if 0xC2 \<le> b0 \<and> b0 \<le> 0xDF then
        (case bs of
           b1 # r \<Rightarrow>
             if continuation b1
             then map_option ((#) ((b0 - 0xC0) * 64 + (b1 - 0x80))) (utf8_decode r)
             else None
         | _ \<Rightarrow> None)
      else if 0xE0 \<le> b0 \<and> b0 \<le> 0xEF then
        (case bs of
           b1 # b2 # r \<Rightarrow>
             if (if b0 = 0xE0 then 0xA0 else 0x80) \<le> b1
                \<and> b1 \<le> (if b0 = 0xED then 0x9F else 0xBF) \<and> continuation b2
             then map_option
                    ((#) ((b0 - 0xE0) * 4096 + (b1 - 0x80) * 64 + (b2 - 0x80)))
                    (utf8_decode r)
             else None
         | _ \<Rightarrow> None)
      else if 0xF0 \<le> b0 \<and> b0 \<le> 0xF4 then
        (case bs of
           b1 # b2 # b3 # r \<Rightarrow>
             if (if b0 = 0xF0 then 0x90 else 0x80) \<le> b1
                \<and> b1 \<le> (if b0 = 0xF4 then 0x8F else 0xBF)
                \<and> continuation b2 \<and> continuation b3
             then map_option
                    ((#) ((b0 - 0xF0) * 262144 + (b1 - 0x80) * 4096
                          + (b2 - 0x80) * 64 + (b3 - 0x80)))
                    (utf8_decode r)
             else None
         | _ \<Rightarrow> None)
      else None)"

declare utf8_decode.simps(2) [simp del]

text \<open>
  Text mode with the default \<open>newline=None\<close>: the terminators CR LF, CR and LF are all
  read as LF.
\<close>

fun universal_newlines :: "nat list \<Rightarrow> nat list" where
  "universal_newlines [] = []"
| "universal_newlines [c] = [if c = 13 then 10 else c]"
| "universal_newlines (c # d # cs) =
     (if c = 13 \<and> d = 10 then 10 # universal_newlines cs
      else if c = 13 then 10 # universal_newlines (d # cs)
      else c # universal_newlines (d # cs))"

text \<open>
  \<open>readlines\<close>: the lines of the translated text, each with its LF; a last line without
  LF is a line too.
\<close>

fun split_keepends :: "nat list \<Rightarrow> nat list \<Rightarrow> nat list list" where
  "split_keepends cur [] = (if cur = [] then [] else [cur])"
| "split_keepends cur (c # cs) =
     (if c = 10 then (cur @ [c]) # split_keepends [] cs
      else split_keepends (cur @ [c]) cs)"

definition readlines :: "string \<Rightarrow> py_exception + nat list list" where
  "readlines bytes =
     (case utf8_decode (map of_char bytes) of
        None \<Rightarrow> Inl UnicodeDecodeError
      | Some text \<Rightarrow> Inr (split_keepends [] (universal_newlines text)))"

subsection \<open>Formatting an integer\<close>

definition digit :: "nat \<Rightarrow> char" where
  "digit d = char_of (48 + d)"

function str_of_nat :: "nat \<Rightarrow> string" where
  "str_of_nat n = (if n < 10 then [digit n] else str_of_nat (n div 10) @ [digit (n mod 10)])"
  by pat_completeness auto
termination
  by (relation "measure id") auto

declare str_of_nat.simps [simp del]

subsection \<open>The file system\<close>

text \<open>
  The entry a path denotes: \<open>None\<close> when there is no such file or the path cannot be
  followed, which is when \<open>os.path.exists\<close> answers \<open>False\<close>.
\<close>

definition entry_at :: "world \<Rightarrow> string \<Rightarrow> entry option" where
  "entry_at w p = fs w (file_of w p)"

definition os_path_exists :: "string \<Rightarrow> world \<Rightarrow> bool \<times> world" where
  "os_path_exists p w = (entry_at w p \<noteq> None, w\<lparr>accesses := accesses w @ [Exists p]\<rparr>)"

text \<open>\<open>open(p, 'r', encoding='utf-8')\<close> followed by \<open>readlines()\<close>; the file is closed on every path.\<close>

definition open_readlines :: "string \<Rightarrow> world \<Rightarrow> (py_exception + nat list list) \<times> world" where
  "open_readlines p w =
     (let w' = w\<lparr>accesses := accesses w @ [Open_read p]\<rparr> in
      case entry_at w p of
        None \<Rightarrow> (Inl FileNotFoundError, w')
      | Some Directory \<Rightarrow> (Inl IsADirectoryError, w')
      | Some (File r wr bytes) \<Rightarrow>
          if r then (readlines bytes, w') else (Inl PermissionError, w'))"

text \<open>Opening for append, as \<open>logging.FileHandler\<close> does when it is created: a missing file is created empty.\<close>

definition open_append :: "string \<Rightarrow> world \<Rightarrow> (py_exception + unit) \<times> world" where
  "open_append p w =
     (let w' = w\<lparr>accesses := accesses w @ [Open_append p]\<rparr> in
      case entry_at w p of
        None \<Rightarrow>
          if cwd_writable w
          then (Inr (), w'\<lparr>fs := (fs w)(file_of w p \<mapsto> File True True [])\<rparr>)
          else (Inl PermissionError, w')
      | Some Directory \<Rightarrow> (Inl IsADirectoryError, w')
      | Some (File r wr bytes) \<Rightarrow>
          if wr then (Inr (), w') else (Inl PermissionError, w'))"

definition append_to_file :: "string \<Rightarrow> string \<Rightarrow> world \<Rightarrow> world" where
  "append_to_file p s w =
     (case entry_at w p of
        Some (File r wr bytes) \<Rightarrow> w\<lparr>fs := (fs w)(file_of w p \<mapsto> File r wr (bytes @ s))\<rparr>
      | _ \<Rightarrow> w)"

definition print :: "string \<Rightarrow> world \<Rightarrow> world" where
  "print s w = w\<lparr>stdout := stdout w @ [Text (s @ [CHR 0x0A])]\<rparr>"

subsection \<open>The logging module\<close>

fun levelno :: "level \<Rightarrow> nat" where
  "levelno DEBUG = 10"
| "levelno INFO = 20"
| "levelno WARNING = 30"
| "levelno ERROR = 40"
| "levelno CRITICAL = 50"

fun levelname :: "level \<Rightarrow> string" where
  "levelname DEBUG = ''DEBUG''"
| "levelname INFO = ''INFO''"
| "levelname WARNING = ''WARNING''"
| "levelname ERROR = ''ERROR''"
| "levelname CRITICAL = ''CRITICAL''"

text \<open>The table \<open>logging._nameToLevel\<close>, which \<open>setLevel\<close> consults for a level given as a string.\<close>

definition name_to_level :: "(string \<times> nat) list" where
  "name_to_level =
     [(''CRITICAL'', 50), (''FATAL'', 50), (''ERROR'', 40), (''WARN'', 30),
      (''WARNING'', 30), (''INFO'', 20), (''DEBUG'', 10), (''NOTSET'', 0)]"

definition format_record :: "log_format \<Rightarrow> string \<Rightarrow> level \<Rightarrow> string \<Rightarrow> string" where
  "format_record f t l msg =
     (case f of
        BASIC_FORMAT \<Rightarrow> levelname l @ '':root:'' @ msg
      | Asctime_levelname_message \<Rightarrow> t @ '' - '' @ levelname l @ '' - '' @ msg)"

text \<open>A handler writes the formatted record and a line feed to its stream.\<close>

fun emit :: "level \<Rightarrow> string \<Rightarrow> handler \<Rightarrow> world \<Rightarrow> world" where
  "emit l msg (StreamHandler f) w =
     w\<lparr>stderr := stderr w @ [Text (format_record f (asctime w) l msg @ [CHR 0x0A])]\<rparr>"
| "emit l msg (FileHandler p f) w =
     append_to_file p (format_record f (asctime w) l msg @ [CHR 0x0A]) w"

text \<open>
  \<open>logging.basicConfig(filename=..., level=..., format=..., datefmt=...)\<close>: nothing when
  the root logger has a handler already; otherwise the handler is created (a file
  handler opens its file at once), added, and then the level is set.
\<close>

definition basicConfig ::
  "string option \<Rightarrow> string option \<Rightarrow> log_format \<Rightarrow> world \<Rightarrow> (py_exception + unit) \<times> world" where
  "basicConfig filename lvl f w =
     (if root_handlers w \<noteq> [] then (Inr (), w)
      else
        let opened =
              (case filename of
                 None \<Rightarrow> (Inr (StreamHandler f), w)
               | Some p \<Rightarrow>
                   if p = [] then (Inr (StreamHandler f), w)
                   else (case open_append p w of
                           (Inl e, w') \<Rightarrow> (Inl e, w')
                         | (Inr u, w') \<Rightarrow> (Inr (FileHandler p f), w')))
        in case opened of
             (Inl e, w') \<Rightarrow> (Inl e, w')
           | (Inr h, w') \<Rightarrow>
               let w'' = w'\<lparr>root_handlers := [h]\<rparr> in
               (case lvl of
                  None \<Rightarrow> (Inr (), w'')
                | Some name \<Rightarrow>
                    (case map_of name_to_level name of
                       None \<Rightarrow> (Inl ValueError, w'')
                     | Some n \<Rightarrow> (Inr (), w''\<lparr>root_level := n\<rparr>))))"

text \<open>
  \<open>logging.info(msg)\<close> and \<open>logging.error(msg)\<close>: a root logger without handlers is
  configured first with the defaults; the record goes to every handler when its level
  reaches the root logger's level, and is dropped otherwise.
\<close>

definition logging_log :: "level \<Rightarrow> string \<Rightarrow> world \<Rightarrow> world" where
  "logging_log l msg w =
     (let w1 = (if root_handlers w = [] then snd (basicConfig None None BASIC_FORMAT w) else w);
          w2 = w1\<lparr>log_calls := log_calls w1 @ [(l, msg)]\<rparr>
      in if root_level w2 \<le> levelno l then fold (emit l msg) (root_handlers w2) w2 else w2)"

definition logging_info :: "string \<Rightarrow> world \<Rightarrow> world" where
  "logging_info = logging_log INFO"

definition logging_error :: "string \<Rightarrow> world \<Rightarrow> world" where
  "logging_error = logging_log ERROR"

text \<open>\<open>str.upper\<close> on the letters a to z.\<close>

definition upper_char :: "char \<Rightarrow> char" where
  "upper_char c =
     (if (97::nat) \<le> of_char c \<and> of_char c \<le> (122::nat) then char_of (of_char c - (32::nat)) else c)"

definition upper :: "string \<Rightarrow> string" where
  "upper s = map upper_char s"

subsection \<open>The argparse module, for the parser this program builds\<close>

text \<open>
  \<open>parse_arguments\<close> declares one positional argument and three options; argparse adds
  \<open>-h\<close> and \<open>--help\<close>. The functions below follow \<open>ArgumentParser.parse_args\<close> for
  these declarations, as CPython 3.11 implements it: prefix character \<open>-\<close>,
  abbreviations allowed, no option that looks like a negative number. The argument
  vector is \<open>sys.argv[1:]\<close>.
\<close>

definition option_string_actions :: "(string \<times> action) list" where
  "option_string_actions =
     [(''-h'', Help), (''--help'', Help), (''-t'', Test), (''--test'', Test),
      (''--log-level'', Log_level), (''--log-to-file'', Log_to_file)]"

text \<open>\<open>nargs\<close> is \<open>None\<close> (exactly one string) for \<open>filepath\<close> and \<open>--log-level\<close>, and 0 for the others.\<close>

fun takes_argument :: "action \<Rightarrow> bool" where
  "takes_argument Help = False"
| "takes_argument Filepath = True"
| "takes_argument Test = False"
| "takes_argument Log_level = True"
| "takes_argument Log_to_file = False"

definition choices :: "string list" where
  "choices = [''DEBUG'', ''INFO'', ''WARNING'', ''ERROR'', ''CRITICAL'']"

text \<open>An option tuple: the action (\<open>None\<close> for an unknown option), the option string, the separator and the explicit argument.\<close>

type_synonym option_tuple = "action option \<times> string \<times> string option \<times> string option"

definition partition_eq :: "string \<Rightarrow> string \<times> string option" where
  "partition_eq s =
     (takeWhile (\<lambda>c. c \<noteq> CHR ''='') s,
      if CHR ''='' \<in> set s then Some (tl (dropWhile (\<lambda>c. c \<noteq> CHR ''='') s)) else None)"

definition startswith :: "string \<Rightarrow> string \<Rightarrow> bool" where
  "startswith s p = (take (length p) s = p)"

definition get_option_tuples :: "string \<Rightarrow> option_tuple list" where
  "get_option_tuples arg =
     (if arg ! 1 = CHR ''-'' then
        (case partition_eq arg of
           (option_prefix, explicit_arg) \<Rightarrow>
             map (\<lambda>(os, a). (Some a, os, map_option (\<lambda>_. ''='') explicit_arg, explicit_arg))
               (filter (\<lambda>(os, a). startswith os option_prefix) option_string_actions))
      else
        concat (map (\<lambda>(os, a).
                  if os = take 2 arg then [(Some a, os, Some [], Some (drop 2 arg))]
                  else if startswith os arg then [(Some a, os, None, None)]
                  else [])
                option_string_actions))"

text \<open>
  An argument is a \<open>str\<close>: its bytes decoded as UTF-8 with the error handler
  \<open>surrogateescape\<close>, under which a byte \<open>b\<close> that is not part of a valid sequence
  becomes the lone surrogate \<open>U+DC00 + b\<close>. \<open>utf8_length\<close> is the length of the
  sequence a byte begins, and 1 for a byte that begins none.
\<close>

definition utf8_length :: "nat \<Rightarrow> nat" where
  "utf8_length b0 =
     (if 0xC2 \<le> b0 \<and> b0 \<le> 0xDF then 2 else if 0xE0 \<le> b0 \<and> b0 \<le> 0xEF then 3
      else if 0xF0 \<le> b0 \<and> b0 \<le> 0xF4 then 4 else 1)"

fun fsdecode :: "nat list \<Rightarrow> nat list" where
  "fsdecode [] = []"
| "fsdecode (b0 # bs) =
     (case utf8_decode (b0 # take (utf8_length b0 - 1) bs) of
        Some [c] \<Rightarrow> c # fsdecode (drop (utf8_length b0 - 1) bs)
      | _ \<Rightarrow> (0xDC00 + b0) # fsdecode bs)"

text \<open>
  \<^verbatim>\<open>\d\<close> in a \<open>str\<close> pattern matches the decimal digits of Unicode (category Nd, here
  of Unicode 14.0), which come in runs of ten; the list holds the zero of each run.
\<close>

definition decimal_zeros :: "nat list" where
  "decimal_zeros =
     [0x30, 0x660, 0x6F0, 0x7C0, 0x966, 0x9E6, 0xA66, 0xAE6, 0xB66, 0xBE6, 0xC66, 0xCE6,
      0xD66, 0xDE6, 0xE50, 0xED0, 0xF20, 0x1040, 0x1090, 0x17E0, 0x1810, 0x1946, 0x19D0,
      0x1A80, 0x1A90, 0x1B50, 0x1BB0, 0x1C40, 0x1C50, 0xA620, 0xA8D0, 0xA900, 0xA9D0,
      0xA9F0, 0xAA50, 0xABF0, 0xFF10, 0x104A0, 0x10D30, 0x11066, 0x110F0, 0x11136,
      0x111D0, 0x112F0, 0x11450, 0x114D0, 0x11650, 0x116C0, 0x11730, 0x118E0, 0x11950,
      0x11C50, 0x11D50, 0x11DA0, 0x16A60, 0x16AC0, 0x16B50, 0x1D7CE, 0x1D7D8, 0x1D7E2,
      0x1D7EC, 0x1D7F6, 0x1E140, 0x1E2F0, 0x1E950, 0x1FBF0]"

definition is_digit :: "nat \<Rightarrow> bool" where
  "is_digit c = list_ex (\<lambda>z. z \<le> c \<and> c < z + 10) decimal_zeros"

text \<open>
  The pattern \<^verbatim>\<open>^-\d+$|^-\d*\.\d+$\<close>, matched against the decoded argument; \<^verbatim>\<open>$\<close> also
  matches before a line feed that ends the string.
\<close>

definition negative_number_like :: "string \<Rightarrow> bool" where
  "negative_number_like s =
     (let u = fsdecode (map of_char s);
          t = (if u \<noteq> [] \<and> last u = 10 then butlast u else u) in
      case t of
        [] \<Rightarrow> False
      | c # r \<Rightarrow>
          c = 45 \<and>
          ((r \<noteq> [] \<and> list_all is_digit r) \<or>
           (case dropWhile is_digit r of
              [] \<Rightarrow> False
            | d # f \<Rightarrow> d = 46 \<and> f \<noteq> [] \<and> list_all is_digit f)))"

text \<open>\<open>_parse_optional\<close>: \<open>Inr None\<close> for a positional, \<open>Inl\<close> where an ambiguous abbreviation ends the run.\<close>

definition parse_optional :: "string \<Rightarrow> usage_error + option_tuple option" where
  "parse_optional arg =
     (if arg = [] then Inr None
      else if hd arg \<noteq> CHR ''-'' then Inr None
      else
        case map_of option_string_actions arg of
          Some a \<Rightarrow> Inr (Some (Some a, arg, None, None))
        | None \<Rightarrow>
            if length arg = 1 then Inr None
            else
              (case (case partition_eq arg of
                       (os, Some ea) \<Rightarrow>
                         map_option (\<lambda>a. (Some a, os, Some ''='', Some ea))
                           (map_of option_string_actions os)
                     | (os, None) \<Rightarrow> None) of
                 Some t \<Rightarrow> Inr (Some t)
               | None \<Rightarrow>
                   let tuples = get_option_tuples arg in
                   if length tuples > 1
                   then Inl (Ambiguous_option arg (map (\<lambda>(a, os, sep, ea). os) tuples))
                   else if length tuples = 1 then Inr (Some (hd tuples))
                   else if negative_number_like arg then Inr None
                   else if CHR '' '' \<in> set arg then Inr None
                   else Inr (Some (None, arg, None, None))))"

text \<open>
  The argument strings with their class: the pattern character \<open>A\<close>, \<open>O\<close> or \<open>-\<close>. Only the
  first \<open>--\<close> is a separator; every string after it is an argument.
\<close>

datatype item = Arg string | Sep | Opt string option_tuple

fun arg_string :: "item \<Rightarrow> string" where
  "arg_string (Arg s) = s"
| "arg_string Sep = ''--''"
| "arg_string (Opt s t) = s"

fun is_opt :: "item \<Rightarrow> bool" where
  "is_opt (Opt s t) = True"
| "is_opt _ = False"

fun is_sep :: "item \<Rightarrow> bool" where
  "is_sep Sep = True"
| "is_sep _ = False"

fun classify :: "string list \<Rightarrow> usage_error + item list" where
  "classify [] = Inr []"
| "classify (a # as) =
     (if a = ''--'' then Inr (Sep # map Arg as)
      else
        case parse_optional a of
          Inl e \<Rightarrow> Inl e
        | Inr t \<Rightarrow>
            (case classify as of
               Inl e \<Rightarrow> Inl e
             | Inr items \<Rightarrow>
                 Inr ((case t of None \<Rightarrow> Arg a | Some tup \<Rightarrow> Opt a tup) # items)))"

text \<open>The namespace under construction (\<open>filepath\<close> has no default) and the strings left over.\<close>

record parse_state =
  ns_filepath :: "string option"
  ns_test :: bool
  ns_log_level :: string
  ns_log_to_file :: bool
  extras :: "string list"

datatype parser_exit = Exit_help | Exit_error usage_error

text \<open>
  \<open>take_action\<close>: the help action prints and exits, a \<open>store_true\<close> action stores
  \<open>True\<close>, a store action checks its one string against the choices and stores it. An
  action with \<open>nargs=None\<close> always receives exactly one string.
\<close>

fun take_action :: "action \<Rightarrow> string list \<Rightarrow> parse_state \<Rightarrow> parser_exit + parse_state" where
  "take_action Help args st = Inl Exit_help"
| "take_action Test args st = Inr (st\<lparr>ns_test := True\<rparr>)"
| "take_action Log_to_file args st = Inr (st\<lparr>ns_log_to_file := True\<rparr>)"
| "take_action Log_level [v] st =
     (if v \<in> set choices then Inr (st\<lparr>ns_log_level := v\<rparr>)
      else Inl (Exit_error (Argument_error Log_level (Invalid_choice v))))"
| "take_action Filepath [v] st = Inr (st\<lparr>ns_filepath := Some v\<rparr>)"
| "take_action a args st = Inr st"

fun take_actions :: "(action \<times> string list) list \<Rightarrow> parse_state \<Rightarrow> parser_exit + parse_state" where
  "take_actions [] st = Inr st"
| "take_actions ((a, args) # later) st =
     (case take_action a args st of
        Inl x \<Rightarrow> Inl x
      | Inr st' \<Rightarrow> take_actions later st')"

text \<open>
  \<open>consume_positionals\<close>: while \<open>filepath\<close> is still to be parsed, its pattern
  \<^verbatim>\<open>(-*A-*)\<close> is matched at the current position, and the first \<open>--\<close> among the
  matched strings is removed.
\<close>

definition match_positional :: "item list \<Rightarrow> nat" where
  "match_positional items =
     (case dropWhile is_sep items of
        Arg s # rest \<Rightarrow> length (takeWhile is_sep items) + 1 + length (takeWhile is_sep rest)
      | _ \<Rightarrow> 0)"

definition consume_positionals :: "item list \<Rightarrow> parse_state \<Rightarrow> parser_exit + parse_state \<times> item list" where
  "consume_positionals items st =
     (if ns_filepath st \<noteq> None \<or> match_positional items = 0 then Inr (st, items)
      else
        let k = match_positional items in
        case take_action Filepath (remove1 ''--'' (map arg_string (take k items))) st of
          Inl x \<Rightarrow> Inl x
        | Inr st' \<Rightarrow> Inr (st', drop k items))"

text \<open>
  The loop of \<open>consume_optional\<close> over an explicit argument: a single-dash option
  without argument may be followed by further single-dash options in the same string.
\<close>

datatype final = Match_following action | Explicit action string | Unknown_tail string

function explicit_chain ::
  "action \<Rightarrow> string \<Rightarrow> string option \<Rightarrow> string \<Rightarrow> usage_error + action list \<times> final" where
  "explicit_chain a os sep ea =
     (if \<not> takes_argument a \<and> os ! 1 \<noteq> CHR ''-'' \<and> ea \<noteq> [] then
        if (sep \<noteq> None \<and> sep \<noteq> Some []) \<or> hd ea = CHR ''-''
        then Inl (Argument_error a (Ignored_explicit_argument ea))
        else
          (case map_of option_string_actions [CHR ''-'', hd ea] of
             None \<Rightarrow> Inr ([a], Unknown_tail (CHR ''-'' # ea))
           | Some a' \<Rightarrow>
               if tl ea = [] then Inr ([a], Match_following a')
               else
                 (case (if hd (tl ea) = CHR ''=''
                        then explicit_chain a' [CHR ''-'', hd ea] (Some ''='') (tl (tl ea))
                        else explicit_chain a' [CHR ''-'', hd ea] (Some []) (tl ea)) of
                    Inl e \<Rightarrow> Inl e
                  | Inr (flags, f) \<Rightarrow> Inr (a # flags, f)))
      else if takes_argument a then Inr ([], Explicit a ea)
      else Inl (Argument_error a (Ignored_explicit_argument ea)))"
  by pat_completeness auto
termination
  by (relation "measure (\<lambda>(a, os, sep, ea). length ea)") auto

declare explicit_chain.simps [simp del]

text \<open>\<open>consume_optional\<close> returns the new state and how many of the following strings the option took.\<close>

definition consume_optional ::
  "string \<Rightarrow> option_tuple \<Rightarrow> item list \<Rightarrow> parse_state \<Rightarrow> parser_exit + parse_state \<times> nat" where
  "consume_optional s tup following st =
     (case tup of
        (None, os, sep, explicit_arg) \<Rightarrow> Inr (st\<lparr>extras := extras st @ [s]\<rparr>, 0)
      | (Some a, os, sep, explicit_arg) \<Rightarrow>
          (case (case explicit_arg of
                   None \<Rightarrow> Inr ([], Match_following a)
                 | Some ea \<Rightarrow> explicit_chain a os sep ea) of
             Inl e \<Rightarrow> Inl (Exit_error e)
           | Inr (flags, Unknown_tail t) \<Rightarrow>
               (case take_actions (map (\<lambda>b. (b, [])) flags) (st\<lparr>extras := extras st @ [t]\<rparr>) of
                  Inl x \<Rightarrow> Inl x
                | Inr st' \<Rightarrow> Inr (st', 0))
           | Inr (flags, Explicit b ea) \<Rightarrow>
               (case take_actions (map (\<lambda>b. (b, [])) flags @ [(b, [ea])]) st of
                  Inl x \<Rightarrow> Inl x
                | Inr st' \<Rightarrow> Inr (st', 0))
           | Inr (flags, Match_following b) \<Rightarrow>
               if takes_argument b then
                 (case following of
                    Arg v # rest \<Rightarrow>
                      (case take_actions (map (\<lambda>b. (b, [])) flags @ [(b, [v])]) st of
                         Inl x \<Rightarrow> Inl x
                       | Inr st' \<Rightarrow> Inr (st', 1))
                  | _ \<Rightarrow> Inl (Exit_error (Argument_error b Expected_one_argument)))
               else
                 (case take_actions (map (\<lambda>b. (b, [])) flags @ [(b, [])]) st of
                    Inl x \<Rightarrow> Inl x
                  | Inr st' \<Rightarrow> Inr (st', 0))))"

text \<open>
  The main loop of \<open>_parse_known_args\<close>: positionals and optionals are consumed in
  turn while an option string is ahead; then the remaining positionals are consumed and
  what is left goes to the extras.
\<close>

function consume :: "item list \<Rightarrow> parse_state \<Rightarrow> parser_exit + parse_state" where
  "consume items st =
     (if \<not> list_ex is_opt items then
        (case consume_positionals items st of
           Inl x \<Rightarrow> Inl x
         | Inr (st', rest) \<Rightarrow> Inr (st'\<lparr>extras := extras st' @ map arg_string rest\<rparr>))
      else
        case items of
          Opt s tup # rest \<Rightarrow>
            (case consume_optional s tup rest st of
               Inl x \<Rightarrow> Inl x
             | Inr (st', k) \<Rightarrow> consume (drop k rest) st')
        | _ \<Rightarrow>
            (case consume_positionals items st of
               Inl x \<Rightarrow> Inl x
             | Inr (st', rest) \<Rightarrow>
                 if length rest < length items then consume rest st'
                 else
                   (case dropWhile (\<lambda>i. \<not> is_opt i) items of
                      Opt s tup # rest' \<Rightarrow>
                        (case consume_optional s tup rest'
                                (st'\<lparr>extras := extras st'
                                        @ map arg_string (takeWhile (\<lambda>i. \<not> is_opt i) items)\<rparr>) of
                           Inl x \<Rightarrow> Inl x
                         | Inr (st'', k) \<Rightarrow> consume (drop k rest') st'')
                    | _ \<Rightarrow> Inr st')))"
  by pat_completeness auto
termination
  apply (relation "measure (\<lambda>(items, st). length items)")
      apply simp_all
  subgoal for items st x21 x22
    using length_dropWhile_le [of "\<lambda>i. \<not> is_opt i" x22] by auto
  subgoal for items st x21 x22
    using length_dropWhile_le [of "\<lambda>i. \<not> is_opt i" x22] by auto
  done

declare consume.simps [simp del]

definition initial_state :: parse_state where
  "initial_state =
     \<lparr>ns_filepath = None, ns_test = False, ns_log_level = ''WARNING'',
      ns_log_to_file = False, extras = []\<rparr>"

section \<open>The program\<close>

text \<open>The namespace \<open>parse_args\<close> returns.\<close>

record namespace =
  filepath :: string
  test :: bool
  log_level :: string
  log_to_file :: bool

text \<open>
  \<open>parser.parse_args()\<close> on \<open>sys.argv[1:]\<close>: after the loop, a missing \<open>filepath\<close>
  is an error, and then any string left over is.
\<close>

definition parse_args :: "string list \<Rightarrow> parser_exit + namespace" where
  "parse_args argv =
     (case classify argv of
        Inl e \<Rightarrow> Inl (Exit_error e)
      | Inr items \<Rightarrow>
          (case consume items initial_state of
             Inl x \<Rightarrow> Inl x
           | Inr st \<Rightarrow>
               (case ns_filepath st of
                  None \<Rightarrow> Inl (Exit_error (Required_arguments [''filepath'']))
                | Some p \<Rightarrow>
                    if extras st \<noteq> [] then Inl (Exit_error (Unrecognized_arguments (extras st)))
                    else Inr \<lparr>filepath = p, test = ns_test st, log_level = ns_log_level st,
                              log_to_file = ns_log_to_file st\<rparr>)))"

text \<open>
  \<open>parse_arguments\<close>: the help action prints the help to standard output and exits
  with 0; \<open>parser.error\<close> prints the usage and the message to standard error and exits
  with 2.
\<close>

definition parse_arguments :: "string list \<Rightarrow> world \<Rightarrow> (nat + namespace) \<times> world" where
  "parse_arguments argv w =
     (case parse_args argv of
        Inl Exit_help \<Rightarrow> (Inl 0, w\<lparr>stdout := stdout w @ [Help_message]\<rparr>)
      | Inl (Exit_error e) \<Rightarrow> (Inl 2, w\<lparr>stderr := stderr w @ [Usage_message, Error_message e]\<rparr>)
      | Inr args \<Rightarrow> (Inr args, w))"

definition set_logger :: "namespace \<Rightarrow> world \<Rightarrow> (py_exception + unit) \<times> world" where
  "set_logger args w =
     (if log_to_file args
      then basicConfig (Some ''logfile.log'') (Some (upper (log_level args)))
             Asctime_levelname_message w
      else basicConfig None (Some (upper (log_level args))) Asctime_levelname_message w)"

definition count_lines_in_file :: "string \<Rightarrow> bool \<Rightarrow> world \<Rightarrow> (py_exception + unit) \<times> world" where
  "count_lines_in_file path test_mode w =
     (if test_mode
      then (Inr (), logging_info ''Test mode: skipping actual file processing.'' w)
      else
        case os_path_exists path w of
          (found, w1) \<Rightarrow>
            if \<not> found then (Inr (), logging_error (''File not found: '' @ path) w1)
            else
              (case open_readlines path w1 of
                 (Inl e, w2) \<Rightarrow> (Inl e, w2)
               | (Inr lines, w2) \<Rightarrow>
                   let line_count = length lines;
                       w3 = logging_info (''Processed file: '' @ path) w2;
                       w4 = logging_info (''Total lines: '' @ str_of_nat line_count) w3
                   in (Inr (),
                       print ('' '' @ path @ '' has '' @ str_of_nat line_count @ '' lines.'') w4)))"

definition main :: "string list \<Rightarrow> world \<Rightarrow> outcome \<times> world" where
  "main argv w =
     (case parse_arguments argv w of
        (Inl status, w1) \<Rightarrow> (SystemExit status, w1)
      | (Inr args, w1) \<Rightarrow>
          (case set_logger args w1 of
             (Inl e, w2) \<Rightarrow> (Uncaught e, w2)
           | (Inr u, w2) \<Rightarrow>
               (case count_lines_in_file (filepath args) (test args) w2 of
                  (Inl e, w3) \<Rightarrow> (Uncaught e, w3)
                | (Inr u', w3) \<Rightarrow> (Returned, w3))))"

text \<open>
  A process starts with empty traces and streams and an unconfigured root logger at
  WARNING. \<open>fresh\<close> is such a world for a working directory without subdirectories
  and links, whose entries are given by name (the directory itself under the name
  \<open>.\<close>): there \<open>./name\<close> is another spelling of \<open>name\<close>, and every other path is
  taken as it is written.
\<close>

function plain :: "string \<Rightarrow> file_id" where
  "plain p =
     (if take 2 p = ''./''
      then (let r = dropWhile (\<lambda>c. c = CHR ''/'') (drop 2 p) in if r = [] then ''.'' else plain r)
      else p)"
  by pat_completeness auto
termination
proof (relation "measure length")
  show "wf (measure length)" by simp
next
  fix p r :: string
  assume "take 2 p = ''./''" and r: "r = dropWhile (\<lambda>c. c = CHR ''/'') (drop 2 p)"
  then have "2 \<le> length p" by (cases p; cases "tl p") auto
  moreover have "length (dropWhile (\<lambda>c. c = CHR ''/'') (drop 2 p)) \<le> length (drop 2 p)"
    by (rule length_dropWhile_le)
  ultimately show "(r, p) \<in> measure length" using r by simp
qed

declare plain.simps [simp del]

definition fresh :: "(file_id \<Rightarrow> entry option) \<Rightarrow> bool \<Rightarrow> string \<Rightarrow> world" where
  "fresh files cw t =
     \<lparr>file_of = plain, fs = files, cwd_writable = cw, accesses = [], stdout = [],
      stderr = [], root_level = 30, root_handlers = [], log_calls = [], asctime = t\<rparr>"

subsection \<open>Notions used in the statements\<close>

text \<open>
  For stating what a sink holds: the lines a handler with format \<open>f\<close> writes for a
  list of records under a threshold \<open>n\<close>, and the bytes of a file (none when there is
  no file).
\<close>

definition written :: "nat \<Rightarrow> log_format \<Rightarrow> string \<Rightarrow> (level \<times> string) list \<Rightarrow> string list" where
  "written n f t calls =
     map (\<lambda>(l, msg). format_record f t l msg @ [CHR 0x0A])
       (filter (\<lambda>(l, msg). n \<le> levelno l) calls)"

definition contents :: "world \<Rightarrow> string \<Rightarrow> string" where
  "contents w p = (case entry_at w p of Some (File r wr bytes) \<Rightarrow> bytes | _ \<Rightarrow> [])"

section \<open>Frame properties and the branches of the Line Counter\<close>

lemma plain_name [simp]: "take 2 p \<noteq> ''./'' \<Longrightarrow> plain p = p"
  by (subst plain.simps) simp

lemma append_to_file_frame [simp]:
  "stdout (append_to_file p s w) = stdout w"
  "stderr (append_to_file p s w) = stderr w"
  "log_calls (append_to_file p s w) = log_calls w"
  "accesses (append_to_file p s w) = accesses w"
  "root_level (append_to_file p s w) = root_level w"
  "root_handlers (append_to_file p s w) = root_handlers w"
  "asctime (append_to_file p s w) = asctime w"
  "file_of (append_to_file p s w) = file_of w"
  by (simp_all add: append_to_file_def split: option.splits entry.splits)

lemma emit_frame [simp]:
  "stdout (emit l msg h w) = stdout w"
  "log_calls (emit l msg h w) = log_calls w"
  "accesses (emit l msg h w) = accesses w"
  "root_level (emit l msg h w) = root_level w"
  "root_handlers (emit l msg h w) = root_handlers w"
  "asctime (emit l msg h w) = asctime w"
  "file_of (emit l msg h w) = file_of w"
  by (cases h; simp)+

lemma fold_emit_frame [simp]:
  "stdout (fold (emit l msg) hs w) = stdout w"
  "log_calls (fold (emit l msg) hs w) = log_calls w"
  "accesses (fold (emit l msg) hs w) = accesses w"
  "root_level (fold (emit l msg) hs w) = root_level w"
  "root_handlers (fold (emit l msg) hs w) = root_handlers w"
  "file_of (fold (emit l msg) hs w) = file_of w"
  by (induction hs arbitrary: w; simp)+

lemma basicConfig_default:
  "snd (basicConfig None None f w) =
     (if root_handlers w = [] then w\<lparr>root_handlers := [StreamHandler f]\<rparr> else w)"
  by (simp add: basicConfig_def)

lemma logging_log_frame [simp]:
  "stdout (logging_log l msg w) = stdout w"
  "log_calls (logging_log l msg w) = log_calls w @ [(l, msg)]"
  "accesses (logging_log l msg w) = accesses w"
  "root_level (logging_log l msg w) = root_level w"
  "file_of (logging_log l msg w) = file_of w"
  by (simp_all add: logging_log_def basicConfig_default Let_def)

lemma count_lines_test:
  "count_lines_in_file p True w =
     (Inr (), logging_log INFO ''Test mode: skipping actual file processing.'' w)"
  by (simp add: count_lines_in_file_def logging_info_def)

lemma count_lines_absent:
  "entry_at w p = None \<Longrightarrow>
   count_lines_in_file p False w =
     (Inr (), logging_log ERROR (''File not found: '' @ p) (w\<lparr>accesses := accesses w @ [Exists p]\<rparr>))"
  by (simp add: count_lines_in_file_def os_path_exists_def logging_error_def)

lemma entry_at_accesses [simp]: "entry_at (w\<lparr>accesses := a\<rparr>) p = entry_at w p"
  by (simp add: entry_at_def)

lemma count_lines_present:
  "entry_at w p = Some (File True wr bytes) \<Longrightarrow> readlines bytes = Inr lines \<Longrightarrow>
   count_lines_in_file p False w =
     (Inr (),
      print ('' '' @ p @ '' has '' @ str_of_nat (length lines) @ '' lines.'')
        (logging_log INFO (''Total lines: '' @ str_of_nat (length lines))
          (logging_log INFO (''Processed file: '' @ p)
            (w\<lparr>accesses := accesses w @ [Exists p, Open_read p]\<rparr>))))"
  by (simp add: count_lines_in_file_def os_path_exists_def open_readlines_def
        logging_info_def Let_def)

lemma main_parsed:
  "parse_args argv = Inr args \<Longrightarrow>
   main argv w =
     (case set_logger args w of
        (Inl e, w2) \<Rightarrow> (Uncaught e, w2)
      | (Inr u, w2) \<Rightarrow>
          (case count_lines_in_file (filepath args) (test args) w2 of
             (Inl e, w3) \<Rightarrow> (Uncaught e, w3)
           | (Inr u', w3) \<Rightarrow> (Returned, w3)))"
  by (simp add: main_def parse_arguments_def)

lemma open_append_frame:
  assumes "open_append p w = (r, w')"
  shows "stdout w' = stdout w" and "stderr w' = stderr w" and "log_calls w' = log_calls w"
    and "file_of w' = file_of w"
  using assms by (auto simp: open_append_def Let_def split: option.splits entry.splits if_splits)

lemma basicConfig_frame [simp]:
  "stdout (snd (basicConfig fn lv f w)) = stdout w"
  "stderr (snd (basicConfig fn lv f w)) = stderr w"
  "log_calls (snd (basicConfig fn lv f w)) = log_calls w"
  "file_of (snd (basicConfig fn lv f w)) = file_of w"
  by (auto simp: basicConfig_def Let_def dest: open_append_frame
      split: option.splits prod.splits sum.splits)

lemma set_logger_frame [simp]:
  "stdout (snd (set_logger args w)) = stdout w"
  "stderr (snd (set_logger args w)) = stderr w"
  "log_calls (snd (set_logger args w)) = log_calls w"
  "file_of (snd (set_logger args w)) = file_of w"
  by (simp_all add: set_logger_def)

lemma print_frame [simp]: "file_of (print s w) = file_of w"
  by (simp add: print_def)

text \<open>No step of the program changes which file a path denotes.\<close>

lemma count_lines_file_of [simp]:
  "file_of (snd (count_lines_in_file p t w)) = file_of w"
  by (simp add: count_lines_in_file_def os_path_exists_def open_readlines_def
        logging_info_def logging_error_def Let_def
      split: option.splits entry.splits sum.splits prod.splits)

lemma main_file_of: "file_of (snd (main argv w)) = file_of w"
proof -
  obtain r1 v1 where p: "parse_arguments argv w = (r1, v1)"
    by (cases "parse_arguments argv w")
  then have f1: "file_of v1 = file_of w"
    by (auto simp: parse_arguments_def split: sum.splits parser_exit.splits)
  show ?thesis
  proof (cases r1)
    case (Inl status)
    with p f1 show ?thesis by (simp add: main_def)
  next
    case (Inr args)
    obtain r2 v2 where s: "set_logger args v1 = (r2, v2)"
      by (cases "set_logger args v1")
    have f2: "file_of v2 = file_of v1"
      using set_logger_frame(4) [of args v1] s by simp
    obtain r3 v3 where c: "count_lines_in_file (filepath args) (test args) v2 = (r3, v3)"
      by (cases "count_lines_in_file (filepath args) (test args) v2")
    have f3: "file_of v3 = file_of v2"
      using count_lines_file_of [of "filepath args" "test args" v2] c by simp
    from p Inr s c f1 f2 f3 show ?thesis
      by (cases r2; cases r3) (simp_all add: main_def)
  qed
qed

lemma main_counts:
  assumes "parse_args argv = Inr args" and "\<not> test args"
    and "set_logger args w = (Inr (), w1)"
    and "entry_at w1 (filepath args) = Some (File True wr bytes)"
    and "readlines bytes = Inr lines"
  shows "fst (main argv w) = Returned"
    and "stdout (snd (main argv w)) =
           stdout w @ [Text ('' '' @ filepath args @ '' has '' @ str_of_nat (length lines)
                              @ '' lines.'' @ [CHR 0x0A])]"
proof -
  have "stdout w1 = stdout w"
    using set_logger_frame(1) [of args w] assms(3) by simp
  then show "fst (main argv w) = Returned"
    and "stdout (snd (main argv w)) =
           stdout w @ [Text ('' '' @ filepath args @ '' has '' @ str_of_nat (length lines)
                              @ '' lines.'' @ [CHR 0x0A])]"
    using assms by (simp_all add: main_parsed count_lines_present print_def)
qed

section \<open>Properties of the argument parser\<close>

lemma take_action_level:
  "take_action a args st = Inr st' \<Longrightarrow> ns_log_level st \<in> set choices \<Longrightarrow>
   ns_log_level st' \<in> set choices"
  by (induction a args st rule: take_action.induct) (auto split: if_splits)

lemma take_actions_level:
  "take_actions acts st = Inr st' \<Longrightarrow> ns_log_level st \<in> set choices \<Longrightarrow>
   ns_log_level st' \<in> set choices"
proof (induction acts arbitrary: st)
  case Nil
  then show ?case by simp
next
  case (Cons x acts)
  obtain a args where x: "x = (a, args)" by (cases x)
  from Cons.prems x obtain st1 where
    s1: "take_action a args st = Inr st1" and s2: "take_actions acts st1 = Inr st'"
    by (auto split: sum.splits)
  from take_action_level [OF s1 Cons.prems(2)] Cons.IH [OF s2] show ?case by simp
qed

lemma consume_positionals_level:
  "consume_positionals items st = Inr (st', rest) \<Longrightarrow> ns_log_level st \<in> set choices \<Longrightarrow>
   ns_log_level st' \<in> set choices"
  by (auto simp: consume_positionals_def Let_def split: if_splits sum.splits
      dest: take_action_level)

lemma consume_optional_level:
  "consume_optional s tup following st = Inr (st', k) \<Longrightarrow> ns_log_level st \<in> set choices \<Longrightarrow>
   ns_log_level st' \<in> set choices"
  by (auto simp: consume_optional_def split: option.splits sum.splits final.splits
      if_splits list.splits item.splits prod.splits dest: take_actions_level take_action_level)


lemma consume_no_option:
  "\<not> list_ex is_opt items \<Longrightarrow>
   consume items st =
     (case consume_positionals items st of
        Inl x \<Rightarrow> Inl x
      | Inr (st', rest) \<Rightarrow> Inr (st'\<lparr>extras := extras st' @ map arg_string rest\<rparr>))"
  by (subst consume.simps) simp

lemma consume_at_option:
  "consume (Opt s tup # rest) st =
     (case consume_optional s tup rest st of
        Inl x \<Rightarrow> Inl x
      | Inr (st', k) \<Rightarrow> consume (drop k rest) st')"
  by (subst consume.simps) simp

lemma consume_before_option:
  "list_ex is_opt items \<Longrightarrow> \<not> is_opt (hd items) \<Longrightarrow>
   consume items st =
     (case consume_positionals items st of
        Inl x \<Rightarrow> Inl x
      | Inr (st', rest) \<Rightarrow>
          if length rest < length items then consume rest st'
          else
            (case dropWhile (\<lambda>i. \<not> is_opt i) items of
               Opt s tup # rest' \<Rightarrow>
                 (case consume_optional s tup rest'
                         (st'\<lparr>extras := extras st'
                                 @ map arg_string (takeWhile (\<lambda>i. \<not> is_opt i) items)\<rparr>) of
                    Inl x \<Rightarrow> Inl x
                  | Inr (st'', k) \<Rightarrow> consume (drop k rest') st'')
             | _ \<Rightarrow> Inr st'))"
  by (subst consume.simps, cases items; cases "hd items") simp_all

lemma consume_invariant:
  assumes pos: "\<And>items st st' rest. consume_positionals items st = Inr (st', rest) \<Longrightarrow> P st \<Longrightarrow> P st'"
    and opt: "\<And>s tup following st st' k.
                consume_optional s tup following st = Inr (st', k) \<Longrightarrow> P st \<Longrightarrow> P st'"
    and ext: "\<And>st xs. P st \<Longrightarrow> P (st\<lparr>extras := xs\<rparr>)"
  shows "consume items st = Inr st' \<Longrightarrow> P st \<Longrightarrow> P st'"
proof (induction "length items" arbitrary: items st rule: less_induct)
  case less
  show ?case
  proof (cases "list_ex is_opt items")
    case False
    with less.prems(1) obtain s1 rest where
      "consume_positionals items st = Inr (s1, rest)"
      and "st' = s1\<lparr>extras := extras s1 @ map arg_string rest\<rparr>"
      by (auto simp: consume_no_option split: sum.splits)
    with pos less.prems(2) ext show ?thesis by blast
  next
    case True
    then have ne: "items \<noteq> []" by auto
    show ?thesis
    proof (cases "is_opt (hd items)")
      case True
      with ne obtain s tup rest where items: "items = Opt s tup # rest"
        by (cases items; cases "hd items") auto
      with less.prems(1) obtain s1 k where
        c: "consume_optional s tup rest st = Inr (s1, k)"
        and r: "consume (drop k rest) s1 = Inr st'"
        by (auto simp: consume_at_option split: sum.splits)
      have "length (drop k rest) < length items" using items by simp
      from less.hyps [OF this r] opt [OF c less.prems(2)] show ?thesis .
    next
      case False
      with \<open>list_ex is_opt items\<close> less.prems(1) obtain s1 rest1 where
        cp: "consume_positionals items st = Inr (s1, rest1)"
        and rest: "(if length rest1 < length items then consume rest1 s1
                  else
                    (case dropWhile (\<lambda>i. \<not> is_opt i) items of
                       Opt s tup # rest' \<Rightarrow>
                         (case consume_optional s tup rest'
                                 (s1\<lparr>extras := extras s1
                                         @ map arg_string (takeWhile (\<lambda>i. \<not> is_opt i) items)\<rparr>) of
                            Inl x \<Rightarrow> Inl x
                          | Inr (st'', k) \<Rightarrow> consume (drop k rest') st'')
                     | _ \<Rightarrow> Inr s1)) = Inr st'"
        by (auto simp: consume_before_option split: sum.splits)
      have p1: "P s1" using pos [OF cp less.prems(2)] .
      show ?thesis
      proof (cases "length rest1 < length items")
        case True
        with rest have "consume rest1 s1 = Inr st'" by simp
        from less.hyps [OF True this p1] show ?thesis .
      next
        case False
        note nolt = False
        show ?thesis
        proof (cases "dropWhile (\<lambda>i. \<not> is_opt i) items")
          case Nil
          with rest nolt p1 show ?thesis by simp
        next
          case (Cons i rest')
          show ?thesis
          proof (cases i)
            case (Opt s tup)
            with Cons rest nolt obtain s2 k where
              c: "consume_optional s tup rest'
                    (s1\<lparr>extras := extras s1
                            @ map arg_string (takeWhile (\<lambda>i. \<not> is_opt i) items)\<rparr>) = Inr (s2, k)"
              and r: "consume (drop k rest') s2 = Inr st'"
              by (auto split: sum.splits)
            have "length (dropWhile (\<lambda>i. \<not> is_opt i) items) \<le> length items"
              by (rule length_dropWhile_le)
            with Cons have "length (drop k rest') < length items" by simp
            from less.hyps [OF this r] opt [OF c ext [OF p1]] show ?thesis .
          next
            case (Arg v)
            with Cons rest nolt p1 show ?thesis by simp
          next
            case Sep
            with Cons rest nolt p1 show ?thesis by simp
          qed
        qed
      qed
    qed
  qed
qed

lemma consume_level:
  "consume items st = Inr st' \<Longrightarrow> ns_log_level st \<in> set choices \<Longrightarrow>
   ns_log_level st' \<in> set choices"
  by (rule consume_invariant [where P = "\<lambda>st. ns_log_level st \<in> set choices"])
     (auto dest: consume_positionals_level consume_optional_level)

lemma parse_args_level:
  "parse_args argv = Inr args \<Longrightarrow> log_level args \<in> set choices"
proof -
  assume a: "parse_args argv = Inr args"
  have i: "ns_log_level initial_state \<in> set choices"
    by (simp add: initial_state_def choices_def)
  from a obtain items st where "consume items initial_state = Inr st"
    and "log_level args = ns_log_level st"
    by (auto simp: parse_args_def split: sum.splits option.splits if_splits)
  with consume_level [OF _ i] show ?thesis by simp
qed


section \<open>Properties of the program\<close>

lemma levelname_level: "map_of name_to_level (upper (levelname L)) = Some (levelno L)"
  by (cases L) (simp_all add: upper_def upper_char_def name_to_level_def)

lemma choices_eq: "choices = map levelname [DEBUG, INFO, WARNING, ERROR, CRITICAL]"
  by (simp add: choices_def)

lemma choices_levelname: "v \<in> set choices \<Longrightarrow> \<exists>L. v = levelname L"
proof -
  assume "v \<in> set choices"
  then have "v \<in> levelname ` set [DEBUG, INFO, WARNING, ERROR, CRITICAL]"
    by (simp only: choices_eq set_map)
  then show ?thesis by blast
qed

lemma open_append_ok:
  assumes "open_append p w = (Inr u, w')"
  shows "w' = w\<lparr>fs := (if entry_at w p = None then (fs w)(file_of w p \<mapsto> File True True [])
                       else fs w),
                accesses := accesses w @ [Open_append p]\<rparr>"
  using assms
  by (auto simp: open_append_def Let_def split: option.splits entry.splits if_splits)

lemma set_logger_result:
  assumes "root_handlers w = []" and "log_level args = levelname L"
  shows "set_logger args w =
     (if log_to_file args then
        (case open_append ''logfile.log'' w of
           (Inl e, w') \<Rightarrow> (Inl e, w')
         | (Inr u, w') \<Rightarrow>
             (Inr (), w'\<lparr>root_handlers := [FileHandler ''logfile.log'' Asctime_levelname_message],
                        root_level := levelno L\<rparr>))
      else (Inr (), w\<lparr>root_handlers := [StreamHandler Asctime_levelname_message],
                      root_level := levelno L\<rparr>))"
  using assms
  by (simp add: set_logger_def basicConfig_def levelname_level split: prod.splits sum.splits)

text \<open>
  When the arguments were parsed, the root logger is unconfigured and the log file, if
  asked for, can be opened, the logging initialiser succeeds; the lemma describes the
  world it leaves.
\<close>

lemma set_logger_reaches:
  assumes "parse_args argv = Inr args" and "root_handlers w = []"
    and "log_to_file args \<longrightarrow> fst (open_append ''logfile.log'' w) = Inr ()"
  obtains w1 L where "set_logger args w = (Inr (), w1)"
    and "log_level args = levelname L" and "root_level w1 = levelno L"
    and "root_handlers w1 =
           [if log_to_file args then FileHandler ''logfile.log'' Asctime_levelname_message
            else StreamHandler Asctime_levelname_message]"
    and "stdout w1 = stdout w" and "stderr w1 = stderr w" and "log_calls w1 = log_calls w"
    and "asctime w1 = asctime w"
    and "accesses w1 = accesses w @ (if log_to_file args then [Open_append ''logfile.log''] else [])"
    and "fs w1 = (if log_to_file args \<and> entry_at w ''logfile.log'' = None
                  then (fs w)(file_of w ''logfile.log'' \<mapsto> File True True []) else fs w)"
    and "file_of w1 = file_of w"
proof -
  from parse_args_level [OF assms(1)] obtain L where L: "log_level args = levelname L"
    using choices_levelname by blast
  show thesis
  proof (cases "log_to_file args")
    case False
    with set_logger_result [OF assms(2) L] L that [of _ L] show thesis by simp
  next
    case True
    with assms(3) obtain w' where o: "open_append ''logfile.log'' w = (Inr (), w')"
      by (cases "open_append ''logfile.log'' w") auto
    note w' = open_append_ok [OF o]
    have "set_logger args w =
            (Inr (), w'\<lparr>root_handlers := [FileHandler ''logfile.log'' Asctime_levelname_message],
                       root_level := levelno L\<rparr>)"
      using set_logger_result [OF assms(2) L] True o by simp
    with True L w' that [of _ L] show thesis by simp
  qed
qed

subsection \<open>Reading lines\<close>

text \<open>A carriage return on its own ends a line, as a line feed does.\<close>

lemma bare_carriage_return_ends_a_line:
  "readlines [CHR ''a'', CHR 0x0D, CHR ''b'', CHR 0x0A] = Inr [[97, 10], [98, 10]]"
  by code_simp













subsection \<open>A run that reaches the Line Counter\<close>

lemma main_prints:
  assumes "parse_args argv = Inr args" and "\<not> test args" and "root_handlers w = []"
    and "log_to_file args \<longrightarrow> fst (open_append ''logfile.log'' w) = Inr ()"
    and "entry_at w (filepath args) = Some (File True wr bytes)"
    and "readlines bytes = Inr lines"
  shows "fst (main argv w) = Returned"
    and "stdout (snd (main argv w)) =
           stdout w @ [Text ('' '' @ filepath args @ '' has '' @ str_of_nat (length lines)
                              @ '' lines.'' @ [CHR 0x0A])]"
proof -
  from set_logger_reaches [OF assms(1,3,4)] obtain w1 where
    s: "set_logger args w = (Inr (), w1)"
    and f: "fs w1 = (if log_to_file args \<and> entry_at w ''logfile.log'' = None
                     then (fs w)(file_of w ''logfile.log'' \<mapsto> File True True []) else fs w)"
    and g: "file_of w1 = file_of w"
    by metis
  from f g assms(5) have "entry_at w1 (filepath args) = Some (File True wr bytes)"
    by (auto simp: entry_at_def)
  from main_counts [OF assms(1,2) s this assms(6)]
  show "fst (main argv w) = Returned"
    and "stdout (snd (main argv w)) =
           stdout w @ [Text ('' '' @ filepath args @ '' has '' @ str_of_nat (length lines)
                              @ '' lines.'' @ [CHR 0x0A])]"
    by simp_all
qed


lemma str_of_nat_0: "str_of_nat 0 = ''0''"
  by code_simp

lemma main_absent:
  assumes "parse_args argv = Inr args" and "\<not> test args"
    and "set_logger args w = (Inr (), w1)"
    and "entry_at w1 (filepath args) = None"
  shows "main argv w =
           (Returned,
            logging_log ERROR (''File not found: '' @ filepath args)
              (w1\<lparr>accesses := accesses w1 @ [Exists (filepath args)]\<rparr>))"
  using assms by (simp add: main_parsed count_lines_absent)

lemma count_lines_directory:
  "entry_at w p = Some Directory \<Longrightarrow>
   count_lines_in_file p False w =
     (Inl IsADirectoryError, w\<lparr>accesses := accesses w @ [Exists p, Open_read p]\<rparr>)"
  by (simp add: count_lines_in_file_def os_path_exists_def open_readlines_def Let_def)

lemma count_lines_unreadable:
  "entry_at w p = Some (File False wr bytes) \<Longrightarrow>
   count_lines_in_file p False w =
     (Inl PermissionError, w\<lparr>accesses := accesses w @ [Exists p, Open_read p]\<rparr>)"
  by (simp add: count_lines_in_file_def os_path_exists_def open_readlines_def Let_def)

lemma count_lines_undecodable:
  "entry_at w p = Some (File True wr bytes) \<Longrightarrow> readlines bytes = Inl x \<Longrightarrow>
   count_lines_in_file p False w =
     (Inl x, w\<lparr>accesses := accesses w @ [Exists p, Open_read p]\<rparr>)"
  by (simp add: count_lines_in_file_def os_path_exists_def open_readlines_def Let_def)

subsection \<open>The logging sink\<close>

lemma logging_log_console:
  assumes "root_handlers w = [StreamHandler f]"
  shows "logging_log l msg w =
           w\<lparr>stderr := stderr w @ map Text (written (root_level w) f (asctime w) [(l, msg)]),
             log_calls := log_calls w @ [(l, msg)]\<rparr>"
  using assms by (simp add: logging_log_def written_def)

lemma logging_log_file:
  assumes "root_handlers w = [FileHandler p f]" and "entry_at w p = Some (File r wr bytes)"
  shows "logging_log l msg w =
           w\<lparr>fs := (fs w)(file_of w p \<mapsto>
                    File r wr (bytes @ concat (written (root_level w) f (asctime w) [(l, msg)]))),
             log_calls := log_calls w @ [(l, msg)]\<rparr>"
proof -
  have "(fs w)(file_of w p \<mapsto> File r wr bytes) = fs w"
    using assms(2) unfolding entry_at_def by (rule map_upd_triv)
  with assms show ?thesis
    by (simp add: logging_log_def written_def append_to_file_def entry_at_def)
qed

lemma open_append_file:
  assumes "open_append p w = (Inr u, w')"
  shows "\<exists>r. entry_at w' p = Some (File r True (contents w p))"
  using assms
  by (auto simp: open_append_def contents_def entry_at_def Let_def
      split: option.splits entry.splits if_splits)

lemma set_logger_file_sink:
  assumes "root_handlers w = []" and "log_level args = levelname L" and "log_to_file args"
    and "set_logger args w = (Inr (), w1)"
  shows "\<exists>r. entry_at w1 ''logfile.log'' = Some (File r True (contents w ''logfile.log''))"
proof -
  from set_logger_result [OF assms(1,2)] assms(3,4)
  obtain w' where o: "open_append ''logfile.log'' w = (Inr (), w')"
    and w1: "w1 = w'\<lparr>root_handlers := [FileHandler ''logfile.log'' Asctime_levelname_message],
                      root_level := levelno L\<rparr>"
    by (auto split: prod.splits sum.splits)
  from open_append_file [OF o] w1 show ?thesis by (simp add: entry_at_def)
qed


lemma written_append: "written n f t (xs @ ys) = written n f t xs @ written n f t ys"
  by (simp add: written_def)

lemma written_Nil: "written n f t [] = []"
  by (simp add: written_def)

lemma threshold_level:
  assumes "root_handlers w = []" and "log_level args = levelname L"
    and "set_logger args w = (Inr (), w1)"
  shows "root_level w1 = levelno L"
  using set_logger_result [OF assms(1,2)] assms(3)
  by (auto split: if_splits prod.splits sum.splits)

lemma main_reaches:
  assumes "parse_args argv = Inr args" and "set_logger args w = (Inr (), w1)"
  shows "main argv w =
           (case count_lines_in_file (filepath args) (test args) w1 of
              (Inl e, w3) \<Rightarrow> (Uncaught e, w3)
            | (Inr u, w3) \<Rightarrow> (Returned, w3))"
  using assms by (simp add: main_parsed)

text \<open>What the Line Counter does to the sink, for a console handler and for a file handler.\<close>

lemma console_one:
  assumes "root_handlers v = [StreamHandler f]"
  shows "log_calls (logging_log l m v) = log_calls v @ [(l, m)]"
    and "stderr (logging_log l m v) = stderr v @ map Text (written (root_level v) f (asctime v) [(l, m)])"
    and "fs (logging_log l m v) = fs v"
    and "root_handlers (logging_log l m v) = [StreamHandler f]"
    and "asctime (logging_log l m v) = asctime v"
  using assms by (simp_all add: logging_log_console [OF assms])

lemma console_two:
  assumes "root_handlers v = [StreamHandler f]"
  shows "log_calls (print s (logging_log l2 m2 (logging_log l1 m1 v)))
           = log_calls v @ [(l1, m1), (l2, m2)]"
    and "stderr (print s (logging_log l2 m2 (logging_log l1 m1 v)))
           = stderr v @ map Text (written (root_level v) f (asctime v) [(l1, m1), (l2, m2)])"
    and "fs (print s (logging_log l2 m2 (logging_log l1 m1 v))) = fs v"
proof -
  note a = console_one [OF assms, of l1 m1]
  note b = console_one [OF a(4), of l2 m2]
  have w: "written (root_level v) f (asctime v) [(l1, m1), (l2, m2)] =
             written (root_level v) f (asctime v) [(l1, m1)]
             @ written (root_level v) f (asctime v) [(l2, m2)]"
    using written_append [of "root_level v" f "asctime v" "[(l1, m1)]" "[(l2, m2)]"] by simp
  show "log_calls (print s (logging_log l2 m2 (logging_log l1 m1 v)))
           = log_calls v @ [(l1, m1), (l2, m2)]"
    by (simp add: print_def)
  show "stderr (print s (logging_log l2 m2 (logging_log l1 m1 v)))
           = stderr v @ map Text (written (root_level v) f (asctime v) [(l1, m1), (l2, m2)])"
    unfolding w by (simp add: print_def a b)
  show "fs (print s (logging_log l2 m2 (logging_log l1 m1 v))) = fs v"
    by (simp add: print_def a b)
qed

lemma count_lines_console_sink:
  assumes "root_handlers u = [StreamHandler f]"
  shows "\<exists>calls.
           log_calls (snd (count_lines_in_file p t u)) = log_calls u @ calls \<and>
           stderr (snd (count_lines_in_file p t u)) =
             stderr u @ map Text (written (root_level u) f (asctime u) calls) \<and>
           fs (snd (count_lines_in_file p t u)) = fs u"
proof (cases t)
  case True
  then show ?thesis
    by (simp add: count_lines_test console_one [OF assms])
next
  case False
  let ?u = "u\<lparr>accesses := accesses u @ [Exists p]\<rparr>"
  let ?v = "u\<lparr>accesses := accesses u @ [Exists p, Open_read p]\<rparr>"
  have hu: "root_handlers ?u = [StreamHandler f]" and hv: "root_handlers ?v = [StreamHandler f]"
    using assms by simp_all
  show ?thesis
  proof (cases "entry_at u p")
    case None
    with False show ?thesis
      by (simp add: count_lines_absent console_one [OF hu])
  next
    case (Some e)
    show ?thesis
    proof (cases e)
      case Directory
      with Some False show ?thesis
        by (simp add: count_lines_directory written_Nil)
    next
      case (File r wr bytes)
      show ?thesis
      proof (cases r)
        case False
        with File Some \<open>\<not> t\<close> show ?thesis
          by (simp add: count_lines_unreadable written_Nil)
      next
        case True
        show ?thesis
        proof (cases "readlines bytes")
          case (Inl x)
          with True File Some \<open>\<not> t\<close> show ?thesis
            by (simp add: count_lines_undecodable written_Nil)
        next
          case (Inr lines)
          with True File Some \<open>\<not> t\<close> show ?thesis
            by (simp add: count_lines_present console_two [OF hv])
        qed
      qed
    qed
  qed
qed


lemma file_one:
  assumes "root_handlers v = [FileHandler q f]" and "entry_at v q = Some (File r wr bytes)"
  shows "log_calls (logging_log l m v) = log_calls v @ [(l, m)]"
    and "fs (logging_log l m v) =
           (fs v)(file_of v q \<mapsto>
              File r wr (bytes @ concat (written (root_level v) f (asctime v) [(l, m)])))"
    and "stderr (logging_log l m v) = stderr v"
    and "root_handlers (logging_log l m v) = [FileHandler q f]"
    and "asctime (logging_log l m v) = asctime v"
  using assms by (simp_all add: logging_log_file [OF assms])

lemma file_two:
  assumes "root_handlers v = [FileHandler q f]" and "entry_at v q = Some (File r wr bytes)"
  shows "log_calls (print s (logging_log l2 m2 (logging_log l1 m1 v)))
           = log_calls v @ [(l1, m1), (l2, m2)]"
    and "fs (print s (logging_log l2 m2 (logging_log l1 m1 v)))
           = (fs v)(file_of v q \<mapsto> File r wr
                (bytes @ concat (written (root_level v) f (asctime v) [(l1, m1), (l2, m2)])))"
    and "stderr (print s (logging_log l2 m2 (logging_log l1 m1 v))) = stderr v"
proof -
  note a = file_one [OF assms, of l1 m1]
  have f1: "entry_at (logging_log l1 m1 v) q =
              Some (File r wr (bytes @ concat (written (root_level v) f (asctime v) [(l1, m1)])))"
    by (simp add: entry_at_def a(2))
  note b = file_one [OF a(4) f1, of l2 m2]
  have w: "written (root_level v) f (asctime v) [(l1, m1), (l2, m2)] =
             written (root_level v) f (asctime v) [(l1, m1)]
             @ written (root_level v) f (asctime v) [(l2, m2)]"
    using written_append [of "root_level v" f "asctime v" "[(l1, m1)]" "[(l2, m2)]"] by simp
  show "log_calls (print s (logging_log l2 m2 (logging_log l1 m1 v)))
           = log_calls v @ [(l1, m1), (l2, m2)]"
    by (simp add: print_def)
  show "fs (print s (logging_log l2 m2 (logging_log l1 m1 v)))
           = (fs v)(file_of v q \<mapsto> File r wr
                (bytes @ concat (written (root_level v) f (asctime v) [(l1, m1), (l2, m2)])))"
    unfolding w by (simp add: print_def a b)
  show "stderr (print s (logging_log l2 m2 (logging_log l1 m1 v))) = stderr v"
    by (simp add: print_def a b)
qed

lemma count_lines_file_sink:
  assumes "root_handlers u = [FileHandler q f]" and "entry_at u q = Some (File r wr bytes)"
  shows "\<exists>calls.
           log_calls (snd (count_lines_in_file p t u)) = log_calls u @ calls \<and>
           stderr (snd (count_lines_in_file p t u)) = stderr u \<and>
           fs (snd (count_lines_in_file p t u)) =
             (fs u)(file_of u q \<mapsto>
                File r wr (bytes @ concat (written (root_level u) f (asctime u) calls)))"
proof (cases t)
  case True
  then show ?thesis
    by (simp add: count_lines_test file_one [OF assms])
next
  case False
  let ?u = "u\<lparr>accesses := accesses u @ [Exists p]\<rparr>"
  let ?v = "u\<lparr>accesses := accesses u @ [Exists p, Open_read p]\<rparr>"
  have hu: "root_handlers ?u = [FileHandler q f]" and hv: "root_handlers ?v = [FileHandler q f]"
    and fu: "entry_at ?u q = Some (File r wr bytes)"
    and fv: "entry_at ?v q = Some (File r wr bytes)"
    using assms by simp_all
  have same: "(fs u)(file_of u q \<mapsto> File r wr bytes) = fs u"
    using assms(2) unfolding entry_at_def by (rule map_upd_triv)
  show ?thesis
  proof (cases "entry_at u p")
    case None
    with False show ?thesis
      by (simp add: count_lines_absent file_one [OF hu fu])
  next
    case (Some e)
    show ?thesis
    proof (cases e)
      case Directory
      with Some False same show ?thesis
        by (simp add: count_lines_directory written_Nil)
    next
      case (File r' wr' bytes')
      show ?thesis
      proof (cases r')
        case False
        with File Some \<open>\<not> t\<close> same show ?thesis
          by (simp add: count_lines_unreadable written_Nil)
      next
        case True
        show ?thesis
        proof (cases "readlines bytes'")
          case (Inl x)
          with True File Some \<open>\<not> t\<close> same show ?thesis
            by (simp add: count_lines_undecodable written_Nil)
        next
          case (Inr lines)
          with True File Some \<open>\<not> t\<close> show ?thesis
            by (simp add: count_lines_present file_two [OF hv fv])
        qed
      qed
    qed
  qed
qed

subsection \<open>Parsing a filepath and a log level\<close>

lemma parse_optional_plain: "hd v \<noteq> CHR ''-'' \<Longrightarrow> parse_optional v = Inr None"
  by (simp add: parse_optional_def)

lemma classify_single:
  "classify [v] =
     (if v = ''--'' then Inr [Sep]
      else case parse_optional v of
             Inl e \<Rightarrow> Inl e
           | Inr None \<Rightarrow> Inr [Arg v]
           | Inr (Some tup) \<Rightarrow> Inr [Opt v tup])"
  by (simp split: sum.splits option.splits)

lemma consume_Nil: "consume [] st = Inr st"
  by (simp add: consume_no_option consume_positionals_def match_positional_def)

lemma consume_single_Arg:
  "p \<noteq> ''--'' \<Longrightarrow> ns_filepath st = None \<Longrightarrow>
   consume [Arg p] st = Inr (st\<lparr>ns_filepath := Some p\<rparr>)"
  by (simp add: consume_no_option consume_positionals_def match_positional_def)

lemma parse_optional_log_level:
  "parse_optional ''--log-level'' = Inr (Some (Some Log_level, ''--log-level'', None, None))"
  by code_simp

lemma classify_filepath_log_level:
  assumes "parse_optional p = Inr None" and "p \<noteq> ''--''"
  shows "classify [p, ''--log-level'', v] =
     (case classify [v] of
        Inl e \<Rightarrow> Inl e
      | Inr items \<Rightarrow>
          Inr (Arg p # Opt ''--log-level'' (Some Log_level, ''--log-level'', None, None) # items))"
proof -
  have "classify (''--log-level'' # [v]) =
          (case classify [v] of
             Inl e \<Rightarrow> Inl e
           | Inr items \<Rightarrow>
               Inr (Opt ''--log-level'' (Some Log_level, ''--log-level'', None, None) # items))"
    unfolding classify.simps(2) [of "''--log-level''"] parse_optional_log_level
    by (simp split: sum.splits)
  then show ?thesis
    unfolding classify.simps(2) [of p] using assms by (simp split: sum.splits)
qed

lemma consume_log_level_value:
  assumes "ns_filepath st \<noteq> None"
  shows "consume [Opt ''--log-level'' (Some Log_level, ''--log-level'', None, None), x] st =
     (case x of
        Arg v \<Rightarrow>
          if v \<in> set choices then Inr (st\<lparr>ns_log_level := v\<rparr>)
          else Inl (Exit_error (Argument_error Log_level (Invalid_choice v)))
      | _ \<Rightarrow> Inl (Exit_error (Argument_error Log_level Expected_one_argument)))"
  by (cases x) (simp_all add: consume_at_option consume_optional_def consume_Nil)

lemma consume_filepath_log_level:
  assumes "p \<noteq> ''--''"
  shows "consume [Arg p, Opt ''--log-level'' (Some Log_level, ''--log-level'', None, None), x]
           initial_state =
     (case x of
        Arg v \<Rightarrow>
          if v \<in> set choices
          then Inr (initial_state\<lparr>ns_filepath := Some p, ns_log_level := v\<rparr>)
          else Inl (Exit_error (Argument_error Log_level (Invalid_choice v)))
      | _ \<Rightarrow> Inl (Exit_error (Argument_error Log_level Expected_one_argument)))"
proof -
  let ?o = "Opt ''--log-level'' (Some Log_level, ''--log-level'', None, None)"
  have m: "match_positional [Arg p, ?o, x] = 1" by (simp add: match_positional_def)
  have cp: "consume_positionals [Arg p, ?o, x] initial_state =
              Inr (initial_state\<lparr>ns_filepath := Some p\<rparr>, [?o, x])"
    using assms by (simp add: consume_positionals_def m initial_state_def)
  have "consume [Arg p, ?o, x] initial_state =
          consume [?o, x] (initial_state\<lparr>ns_filepath := Some p\<rparr>)"
    by (simp add: consume_before_option cp)
  then show ?thesis
    by (simp add: consume_log_level_value split: item.splits)
qed


lemma choice_plain: "v \<in> set choices \<Longrightarrow> hd v \<noteq> CHR ''-'' \<and> v \<noteq> ''--''"
proof -
  assume "v \<in> set choices"
  then obtain L where "v = levelname L" using choices_levelname by blast
  then show ?thesis by (cases L) simp_all
qed

lemma parse_args_filepath_log_level:
  assumes "parse_optional p = Inr None" and "p \<noteq> ''--''"
  shows "v \<in> set choices \<Longrightarrow>
           parse_args [p, ''--log-level'', v] =
             Inr \<lparr>filepath = p, test = False, log_level = v, log_to_file = False\<rparr>"
    and "v \<notin> set choices \<Longrightarrow> \<exists>e. parse_args [p, ''--log-level'', v] = Inl (Exit_error e)"
proof -
  note c = classify_filepath_log_level [OF assms, of v]
  {
    assume v: "v \<in> set choices"
    from choice_plain [OF v] have "classify [v] = Inr [Arg v]"
      by (simp add: classify_single parse_optional_plain)
    moreover have "consume [Arg p, Opt ''--log-level'' (Some Log_level, ''--log-level'', None, None),
                     Arg v] initial_state =
                   Inr (initial_state\<lparr>ns_filepath := Some p, ns_log_level := v\<rparr>)"
      using v by (simp add: consume_filepath_log_level [OF assms(2)])
    ultimately show "parse_args [p, ''--log-level'', v] =
             Inr \<lparr>filepath = p, test = False, log_level = v, log_to_file = False\<rparr>"
      using c by (simp add: parse_args_def initial_state_def)
  }
  {
    assume v: "v \<notin> set choices"
    show "\<exists>e. parse_args [p, ''--log-level'', v] = Inl (Exit_error e)"
    proof (cases "classify [v]")
      case (Inl e)
      with c show ?thesis by (simp add: parse_args_def)
    next
      case (Inr items)
      then obtain x where x: "items = [x]"
        by (auto simp: classify_single split: if_splits sum.splits option.splits)
      have "x = Arg v \<or> (\<forall>u. x \<noteq> Arg u)"
        using Inr x by (auto simp: classify_single split: if_splits sum.splits option.splits)
      then have "\<exists>e. consume [Arg p, Opt ''--log-level'' (Some Log_level, ''--log-level'', None, None),
                     x] initial_state = Inl (Exit_error e)"
        using v by (auto simp: consume_filepath_log_level [OF assms(2)] split: item.splits)
      with c Inr x show ?thesis
        by (auto simp: parse_args_def)
    qed
  }
qed

lemma main_usage_error:
  "parse_args argv = Inl (Exit_error e) \<Longrightarrow>
   main argv w = (SystemExit 2, w\<lparr>stderr := stderr w @ [Usage_message, Error_message e]\<rparr>)"
  by (simp add: main_def parse_arguments_def)

subsection \<open>Options never set the filepath\<close>

lemma option_action_not_filepath:
  "(k, a) \<in> set option_string_actions \<Longrightarrow> a \<noteq> Filepath"
  by (auto simp: option_string_actions_def)

lemma map_of_option_not_filepath:
  "map_of option_string_actions k = Some a \<Longrightarrow> a \<noteq> Filepath"
  by (drule map_of_SomeD) (rule option_action_not_filepath)

lemma get_option_tuples_not_filepath:
  "t \<in> set (get_option_tuples arg) \<Longrightarrow> fst t \<noteq> Some Filepath"
  by (auto simp: get_option_tuples_def split: if_splits prod.splits
      dest: option_action_not_filepath)

lemma hd_option_tuple_not_filepath:
  assumes "length (get_option_tuples arg) = Suc 0"
  shows "fst (hd (get_option_tuples arg)) \<noteq> Some Filepath"
proof -
  from assms have "hd (get_option_tuples arg) \<in> set (get_option_tuples arg)"
    by (cases "get_option_tuples arg") auto
  then show ?thesis by (rule get_option_tuples_not_filepath)
qed

lemma parse_optional_not_filepath:
  assumes "parse_optional arg = Inr (Some t)"
  shows "fst t \<noteq> Some Filepath"
  using assms
  by (auto simp: parse_optional_def Let_def hd_option_tuple_not_filepath
      split: if_splits option.splits prod.splits
      dest: map_of_option_not_filepath)

lemma explicit_chain_not_filepath:
  "explicit_chain a os sep ea = Inr (flags, f) \<Longrightarrow> a \<noteq> Filepath \<Longrightarrow>
   Filepath \<notin> set flags \<and> f \<noteq> Match_following Filepath \<and> (\<forall>x. f \<noteq> Explicit Filepath x)"
proof (induction "length ea" arbitrary: a os sep ea flags f rule: less_induct)
  case less
  let ?os' = "[CHR ''-'', hd ea]"
  show ?case
  proof (cases "\<not> takes_argument a \<and> os ! 1 \<noteq> CHR ''-'' \<and> ea \<noteq> []")
    case False
    with less.prems show ?thesis
      by (subst (asm) explicit_chain.simps) (auto split: if_splits)
  next
    case True
    note guard = True
    show ?thesis
    proof (cases "map_of option_string_actions ?os'")
      case None
      with guard less.prems show ?thesis
        by (subst (asm) explicit_chain.simps) (auto split: if_splits)
    next
      case (Some a')
      then have a': "a' \<noteq> Filepath" by (rule map_of_option_not_filepath)
      show ?thesis
      proof (cases "tl ea = []")
        case True
        with Some guard less.prems a' show ?thesis
          by (subst (asm) explicit_chain.simps) (auto split: if_splits)
      next
        case False
        define sep' where "sep' = (if hd (tl ea) = CHR ''='' then Some ''='' else Some [])"
        define ea' where "ea' = (if hd (tl ea) = CHR ''='' then tl (tl ea) else tl ea)"
        from Some guard False less.prems(1) obtain flags' where
          r: "explicit_chain a' ?os' sep' ea' = Inr (flags', f)" and fl: "flags = a # flags'"
          by (subst (asm) explicit_chain.simps)
             (auto simp: sep'_def ea'_def split: if_splits sum.splits)
        have "length ea' < length ea" using guard False by (cases ea) (auto simp: ea'_def)
        from less.hyps [OF this r a'] fl less.prems(2) show ?thesis by simp
      qed
    qed
  qed
qed

lemma take_action_filepath:
  "take_action a args st = Inr st' \<Longrightarrow> a \<noteq> Filepath \<Longrightarrow> ns_filepath st' = ns_filepath st"
  by (induction a args st rule: take_action.induct) (auto split: if_splits)

lemma take_actions_filepath:
  "take_actions acts st = Inr st' \<Longrightarrow> Filepath \<notin> fst ` set acts \<Longrightarrow>
   ns_filepath st' = ns_filepath st"
proof (induction acts arbitrary: st)
  case Nil
  then show ?case by simp
next
  case (Cons x acts)
  obtain a args where x: "x = (a, args)" by (cases x)
  from Cons.prems x obtain st1 where
    s1: "take_action a args st = Inr st1" and s2: "take_actions acts st1 = Inr st'"
    by (auto split: sum.splits)
  from Cons.prems(2) x have "a \<noteq> Filepath" and "Filepath \<notin> fst ` set acts" by auto
  with take_action_filepath [OF s1] Cons.IH [OF s2] show ?case by simp
qed

lemma consume_optional_filepath:
  assumes "consume_optional s tup following st = Inr (st', k)" and "fst tup \<noteq> Some Filepath"
  shows "ns_filepath st' = ns_filepath st"
proof -
  obtain ao os sep ex where tup: "tup = (ao, os, sep, ex)" by (cases tup)
  show ?thesis
  proof (cases ao)
    case None
    with assms tup show ?thesis by (auto simp: consume_optional_def)
  next
    case (Some a)
    with assms(2) tup have a: "a \<noteq> Filepath" by simp
    define chain where
      "chain = (case ex of None \<Rightarrow> Inr ([], Match_following a) | Some ea \<Rightarrow> explicit_chain a os sep ea)"
    from assms(1) tup Some obtain flags f where c: "chain = Inr (flags, f)"
      by (cases chain) (auto simp: consume_optional_def chain_def)
    have nf: "Filepath \<notin> set flags \<and> f \<noteq> Match_following Filepath \<and> (\<forall>x. f \<noteq> Explicit Filepath x)"
    proof (cases ex)
      case None
      with c a show ?thesis by (auto simp: chain_def)
    next
      case (Some ea)
      with c have "explicit_chain a os sep ea = Inr (flags, f)" by (simp add: chain_def)
      from explicit_chain_not_filepath [OF this a] show ?thesis .
    qed
    then have m: "Filepath \<notin> fst ` set (map (\<lambda>b. (b, [])) flags)" by (auto simp: image_iff)
    have co: "consume_optional s tup following st =
            (case chain of
               Inl e \<Rightarrow> Inl (Exit_error e)
             | Inr (flags, Unknown_tail t) \<Rightarrow>
                 (case take_actions (map (\<lambda>b. (b, [])) flags) (st\<lparr>extras := extras st @ [t]\<rparr>) of
                    Inl x \<Rightarrow> Inl x
                  | Inr st' \<Rightarrow> Inr (st', 0))
             | Inr (flags, Explicit b ea) \<Rightarrow>
                 (case take_actions (map (\<lambda>b. (b, [])) flags @ [(b, [ea])]) st of
                    Inl x \<Rightarrow> Inl x
                  | Inr st' \<Rightarrow> Inr (st', 0))
             | Inr (flags, Match_following b) \<Rightarrow>
                 if takes_argument b then
                   (case following of
                      Arg v # rest \<Rightarrow>
                        (case take_actions (map (\<lambda>b. (b, [])) flags @ [(b, [v])]) st of
                           Inl x \<Rightarrow> Inl x
                         | Inr st' \<Rightarrow> Inr (st', 1))
                    | _ \<Rightarrow> Inl (Exit_error (Argument_error b Expected_one_argument)))
                 else
                   (case take_actions (map (\<lambda>b. (b, [])) flags @ [(b, [])]) st of
                      Inl x \<Rightarrow> Inl x
                    | Inr st' \<Rightarrow> Inr (st', 0)))"
      using tup \<open>ao = Some a\<close> by (simp add: consume_optional_def chain_def)
    show ?thesis
    proof (cases f)
      case (Unknown_tail t)
      with assms(1) c co obtain "take_actions (map (\<lambda>b. (b, [])) flags) (st\<lparr>extras := extras st @ [t]\<rparr>) = Inr st'"
        by (auto split: sum.splits)
      from take_actions_filepath [OF this m] show ?thesis by simp
    next
      case (Explicit b ea)
      with nf have b: "b \<noteq> Filepath" by auto
      from Explicit assms(1) c co have "take_actions (map (\<lambda>b. (b, [])) flags @ [(b, [ea])]) st = Inr st'"
        by (auto split: sum.splits)
      moreover have "Filepath \<notin> fst ` set (map (\<lambda>b. (b, [])) flags @ [(b, [ea])])"
        using m b by auto
      ultimately show ?thesis by (rule take_actions_filepath)
    next
      case (Match_following b)
      with nf have b: "b \<noteq> Filepath" by auto
      from Match_following assms(1) c co obtain args where
        "take_actions (map (\<lambda>b. (b, [])) flags @ [(b, args)]) st = Inr st'"
        by (auto split: sum.splits if_splits list.splits item.splits)
      moreover have "Filepath \<notin> fst ` set (map (\<lambda>b. (b, [])) flags @ [(b, args)])"
        using m b by auto
      ultimately show ?thesis by (rule take_actions_filepath)
    qed
  qed
qed


lemma parse_args_lone_option:
  assumes "parse_optional p = Inr (Some tup)" and "p \<noteq> ''--''"
  shows "\<exists>x. parse_args [p] = Inl x"
proof (cases "consume_optional p tup [] initial_state")
  case (Inl x)
  with assms show ?thesis
    by (simp add: parse_args_def classify_single consume_at_option)
next
  case (Inr r)
  obtain st' k where r: "r = (st', k)" by (cases r)
  from consume_optional_filepath [OF Inr [unfolded r] parse_optional_not_filepath [OF assms(1)]]
  have "ns_filepath st' = None" by (simp add: initial_state_def)
  with assms Inr r show ?thesis
    by (simp add: parse_args_def classify_single consume_at_option consume_Nil)
qed

lemma parse_args_lone_separator:
  "parse_args [''--''] = Inl (Exit_error (Required_arguments [''filepath'']))"
  by code_simp

subsection \<open>Spellings of the log file\<close>

text \<open>
  In a \<open>fresh\<close> world \<open>./logfile.log\<close> denotes the log file; a path in a directory that
  does not exist denotes something else.
\<close>

lemma log_file_spellings:
  "file_of (fresh files cw t) ''./logfile.log'' = file_of (fresh files cw t) ''logfile.log''"
  "file_of (fresh files cw t) ''.//./logfile.log'' = file_of (fresh files cw t) ''logfile.log''"
  "file_of (fresh files cw t) ''sub/logfile.log'' \<noteq> file_of (fresh files cw t) ''logfile.log''"
proof -
  have "plain ''./logfile.log'' = ''logfile.log''" by code_simp
  moreover have "plain ''.//./logfile.log'' = ''logfile.log''" by code_simp
  ultimately show
    "file_of (fresh files cw t) ''./logfile.log'' = file_of (fresh files cw t) ''logfile.log''"
    "file_of (fresh files cw t) ''.//./logfile.log'' = file_of (fresh files cw t) ''logfile.log''"
    "file_of (fresh files cw t) ''sub/logfile.log'' \<noteq> file_of (fresh files cw t) ''logfile.log''"
    by (simp_all add: fresh_def)
qed

section \<open>The claims\<close>



text \<open>
  C2. On the success path (non-test mode, the file exists and is read), exactly one line
  is written to standard output: a space, the path, \<open>has\<close>, the count,
  \<open>lines.\<close> and the line feed of \<open>print\<close>; the word is \<open>lines\<close> for every count.
\<close>

theorem success_output_format:
  assumes "parse_args argv = Inr args" and "\<not> test args" and "root_handlers w = []"
    and "log_to_file args \<longrightarrow> fst (open_append ''logfile.log'' w) = Inr ()"
    and "entry_at w (filepath args) = Some (File True wr bytes)"
    and "readlines bytes = Inr lines"
  shows "stdout (snd (main argv w)) =
           stdout w @ [Text ('' '' @ filepath args @ '' has '' @ str_of_nat (length lines)
                              @ '' lines.'' @ [CHR 0x0A])]"
  using main_prints(2) [OF assms] .

theorem success_output_format_witness:
  "stdout (snd (main [''one.txt'', ''--log-to-file'', ''--log-level'', ''DEBUG'']
          (fresh (Map.empty(''one.txt'' \<mapsto> File True True [CHR ''x'', CHR 0x0A]))
             True ''2026-01-01 00:00:00''))) = [Text ('' one.txt has 1 lines.'' @ [CHR 0x0A])]"
proof -
  let ?bytes = "[CHR ''x'', CHR 0x0A]"
  let ?w = "fresh (Map.empty(''one.txt'' \<mapsto> File True True ?bytes)) True ''2026-01-01 00:00:00''"
  let ?args = "\<lparr>filepath = ''one.txt'', test = False, log_level = ''DEBUG'', log_to_file = True\<rparr>"
  have p: "parse_args [''one.txt'', ''--log-to-file'', ''--log-level'', ''DEBUG''] = Inr ?args"
    by code_simp
  have t: "\<not> test ?args" by simp
  have h: "root_handlers ?w = []" by (simp add: fresh_def)
  have o: "log_to_file ?args \<longrightarrow> fst (open_append ''logfile.log'' ?w) = Inr ()"
    by (simp add: open_append_def entry_at_def fresh_def)
  have f: "entry_at ?w (filepath ?args) = Some (File True True ?bytes)"
    by (simp add: fresh_def entry_at_def)
  have r: "readlines ?bytes = Inr [[120, 10]]" by code_simp
  have s: "str_of_nat (length [[120, 10::nat]]) = ''1''" by code_simp
  have e: "stdout ?w = []" by (simp add: fresh_def)
  from success_output_format [OF p t h o f r] show ?thesis
    unfolding s e by simp
qed

text \<open>
  C3 (amended). For every filepath that denotes no file when the Line Counter checks it,
  that is, one that denotes no file at the start and, under \<open>--log-to-file\<close>, does not
  denote the log file (by whatever spelling), a run in non-test mode issues exactly one
  ERROR-level record with the message \<open>File not found: <filepath>\<close>, prints nothing to
  standard output and returns, so the process exits with 0. (Whether the sink keeps the
  record is the threshold's business: at CRITICAL it is dropped.)
\<close>

theorem not_found_reported:
  assumes "parse_args argv = Inr args" and "\<not> test args" and "root_handlers w = []"
    and "log_to_file args \<longrightarrow> fst (open_append ''logfile.log'' w) = Inr ()"
    and "entry_at w (filepath args) = None"
    and "log_to_file args \<longrightarrow> file_of w (filepath args) \<noteq> file_of w ''logfile.log''"
  shows "fst (main argv w) = Returned \<and> exit_code (fst (main argv w)) = 0 \<and>
         stdout (snd (main argv w)) = stdout w \<and>
         log_calls (snd (main argv w)) =
           log_calls w @ [(ERROR, ''File not found: '' @ filepath args)]"
proof -
  from set_logger_reaches [OF assms(1,3,4)] obtain w1 where
    s: "set_logger args w = (Inr (), w1)"
    and f: "fs w1 = (if log_to_file args \<and> entry_at w ''logfile.log'' = None
                     then (fs w)(file_of w ''logfile.log'' \<mapsto> File True True []) else fs w)"
    and g: "file_of w1 = file_of w"
    and o: "stdout w1 = stdout w" and c: "log_calls w1 = log_calls w"
    by metis
  from f g assms(5,6) have "entry_at w1 (filepath args) = None"
    by (auto simp: entry_at_def)
  from main_absent [OF assms(1,2) s this] o c show ?thesis by simp
qed

theorem not_found_reported_witness:
  "fst (main [''b.txt'', ''--log-level'', ''CRITICAL''] (fresh Map.empty True ''2026-01-01 00:00:00''))
     = Returned
   \<and> stdout (snd (main [''b.txt'', ''--log-level'', ''CRITICAL'']
                    (fresh Map.empty True ''2026-01-01 00:00:00''))) = []
   \<and> log_calls (snd (main [''b.txt'', ''--log-level'', ''CRITICAL'']
                       (fresh Map.empty True ''2026-01-01 00:00:00'')))
       = [(ERROR, ''File not found: b.txt'')]
   \<and> stdout (snd (main [''b.txt'', ''--log-to-file'']
                    (fresh Map.empty True ''2026-01-01 00:00:00''))) = []
   \<and> log_calls (snd (main [''b.txt'', ''--log-to-file'']
                       (fresh Map.empty True ''2026-01-01 00:00:00'')))
       = [(ERROR, ''File not found: b.txt'')]"
proof -
  let ?w = "fresh Map.empty True ''2026-01-01 00:00:00''"
  let ?args = "\<lparr>filepath = ''b.txt'', test = False, log_level = ''CRITICAL'', log_to_file = False\<rparr>"
  let ?args' = "\<lparr>filepath = ''b.txt'', test = False, log_level = ''WARNING'', log_to_file = True\<rparr>"
  have p: "parse_args [''b.txt'', ''--log-level'', ''CRITICAL''] = Inr ?args" by code_simp
  have p': "parse_args [''b.txt'', ''--log-to-file''] = Inr ?args'" by code_simp
  have t: "\<not> test ?args" and t': "\<not> test ?args'" by simp_all
  have h: "root_handlers ?w = []" by (simp add: fresh_def)
  have o: "log_to_file ?args \<longrightarrow> fst (open_append ''logfile.log'' ?w) = Inr ()" by simp
  have o': "log_to_file ?args' \<longrightarrow> fst (open_append ''logfile.log'' ?w) = Inr ()"
    by (simp add: open_append_def entry_at_def fresh_def)
  have f: "entry_at ?w (filepath ?args) = None" and f': "entry_at ?w (filepath ?args') = None"
    by (simp_all add: fresh_def entry_at_def)
  have n: "log_to_file ?args \<longrightarrow> file_of ?w (filepath ?args) \<noteq> file_of ?w ''logfile.log''"
    by simp
  have n': "log_to_file ?args' \<longrightarrow> file_of ?w (filepath ?args') \<noteq> file_of ?w ''logfile.log''"
    by (simp add: fresh_def)
  have e: "stdout ?w = []" "log_calls ?w = []" by (simp_all add: fresh_def)
  from not_found_reported [OF p t h o f n] not_found_reported [OF p' t' h o' f' n']
  show ?thesis unfolding e by simp
qed

text \<open>
  C3 as stated fails: \<open>logfile.log\<close> does not exist, the run asks for \<open>--log-to-file\<close>,
  the logging initialiser creates the file, and the Line Counter then finds it and prints
  a count; no ERROR record is issued. The same happens when the filepath is another
  spelling of the log file, such as \<open>./logfile.log\<close>.
\<close>

theorem not_found_counterexample:
  "entry_at (fresh Map.empty True ''2026-01-01 00:00:00'') ''logfile.log'' = None
   \<and> fst (main [''logfile.log'', ''--log-to-file''] (fresh Map.empty True ''2026-01-01 00:00:00''))
       = Returned
   \<and> stdout (snd (main [''logfile.log'', ''--log-to-file''] (fresh Map.empty True ''2026-01-01 00:00:00'')))
       = [Text ('' logfile.log has 0 lines.'' @ [CHR 0x0A])]
   \<and> log_calls (snd (main [''logfile.log'', ''--log-to-file''] (fresh Map.empty True ''2026-01-01 00:00:00'')))
       = [(INFO, ''Processed file: logfile.log''), (INFO, ''Total lines: 0'')]
   \<and> entry_at (fresh Map.empty True ''2026-01-01 00:00:00'') ''./logfile.log'' = None
   \<and> stdout (snd (main [''./logfile.log'', ''--log-to-file'']
                    (fresh Map.empty True ''2026-01-01 00:00:00'')))
       = [Text ('' ./logfile.log has 0 lines.'' @ [CHR 0x0A])]
   \<and> log_calls (snd (main [''./logfile.log'', ''--log-to-file'']
                       (fresh Map.empty True ''2026-01-01 00:00:00'')))
       = [(INFO, ''Processed file: ./logfile.log''), (INFO, ''Total lines: 0'')]"
  by code_simp

text \<open>
  C4. The parser accepts a \<open>--log-level\<close> value exactly when it is one of the five
  strings DEBUG, INFO, WARNING, ERROR, CRITICAL, compared as they are: whatever the
  argument vector, a namespace that is returned has one of them as its level; after a
  filepath, \<open>--log-level v\<close> is accepted for each of the five and is a usage error for
  every other string \<open>v\<close>; and a usage error ends the run with exit status 2 and the
  usage and error message on standard error, the world being otherwise as it was (no
  logging configuration, no file system call). The filepath is any string argparse
  reads as a positional, which includes a minus sign followed by decimal digits of any
  script.
\<close>

theorem log_level_choices:
  "(parse_args argv = Inr args \<longrightarrow> log_level args \<in> set choices) \<and>
   (parse_optional p = Inr None \<and> p \<noteq> ''--'' \<longrightarrow>
      (v \<in> set choices \<longrightarrow>
         parse_args [p, ''--log-level'', v] =
           Inr \<lparr>filepath = p, test = False, log_level = v, log_to_file = False\<rparr>) \<and>
      (v \<notin> set choices \<longrightarrow> (\<exists>e. parse_args [p, ''--log-level'', v] = Inl (Exit_error e)))) \<and>
   (parse_args argv = Inl (Exit_error e) \<longrightarrow>
      main argv w = (SystemExit 2, w\<lparr>stderr := stderr w @ [Usage_message, Error_message e]\<rparr>) \<and>
      exit_code (fst (main argv w)) \<noteq> 0)"
  using parse_args_level [of argv args] parse_args_filepath_log_level [of p v]
    main_usage_error [of argv e w]
  by auto

theorem log_level_choices_witness:
  "log_level \<lparr>filepath = ''a.txt'', test = False, log_level = ''DEBUG'', log_to_file = False\<rparr>
     \<in> set choices
   \<and> parse_args [''a.txt'', ''--log-level'', ''INFO''] =
       Inr \<lparr>filepath = ''a.txt'', test = False, log_level = ''INFO'', log_to_file = False\<rparr>
   \<and> (\<exists>e. parse_args [''a.txt'', ''--log-level'', ''info''] = Inl (Exit_error e))
   \<and> main [''a.txt'', ''--log-level'', ''BOGUS''] (fresh Map.empty True ''2026-01-01 00:00:00'') =
       (SystemExit 2,
        (fresh Map.empty True ''2026-01-01 00:00:00'')
          \<lparr>stderr := [Usage_message,
                      Error_message (Argument_error Log_level (Invalid_choice ''BOGUS''))]\<rparr>)
   \<and> parse_args [[CHR ''-'', CHR 0xD9, CHR 0xA3], ''--log-level'', ''INFO''] =
       Inr \<lparr>filepath = [CHR ''-'', CHR 0xD9, CHR 0xA3], test = False, log_level = ''INFO'',
            log_to_file = False\<rparr>"
proof -
  let ?w = "fresh Map.empty True ''2026-01-01 00:00:00''"
  let ?d = "\<lparr>filepath = ''a.txt'', test = False, log_level = ''DEBUG'', log_to_file = False\<rparr>"
  let ?three = "[CHR ''-'', CHR 0xD9, CHR 0xA3]"
  have a: "parse_args [''a.txt'', ''--log-level=DEBUG''] = Inr ?d" by code_simp
  have p: "parse_optional ''a.txt'' = Inr None \<and> ''a.txt'' \<noteq> ''--''" by code_simp
  have q: "parse_optional ?three = Inr None \<and> ?three \<noteq> ''--''" by code_simp
  have i: "''INFO'' \<in> set choices" and j: "''info'' \<notin> set choices"
    by (simp_all add: choices_def)
  have b: "parse_args [''a.txt'', ''--log-level'', ''BOGUS''] =
             Inl (Exit_error (Argument_error Log_level (Invalid_choice ''BOGUS'')))"
    by code_simp
  have e: "stderr ?w = []" by (simp add: fresh_def)
  from log_level_choices [of "[''a.txt'', ''--log-level=DEBUG'']" ?d "''a.txt''" "''INFO''" undefined ?w] a p i
  have "log_level ?d \<in> set choices
        \<and> parse_args [''a.txt'', ''--log-level'', ''INFO''] =
            Inr \<lparr>filepath = ''a.txt'', test = False, log_level = ''INFO'', log_to_file = False\<rparr>"
    by blast
  moreover
  from log_level_choices [of "[''a.txt'', ''--log-level'', ''BOGUS'']" undefined "''a.txt''" "''info''"
      "Argument_error Log_level (Invalid_choice ''BOGUS'')" ?w] p j b
  have "(\<exists>e. parse_args [''a.txt'', ''--log-level'', ''info''] = Inl (Exit_error e))
        \<and> main [''a.txt'', ''--log-level'', ''BOGUS''] ?w =
            (SystemExit 2,
             ?w\<lparr>stderr := stderr ?w @ [Usage_message,
                      Error_message (Argument_error Log_level (Invalid_choice ''BOGUS''))]\<rparr>)"
    by blast
  moreover
  from log_level_choices [of undefined undefined ?three "''INFO''" undefined undefined] q i
  have "parse_args [?three, ''--log-level'', ''INFO''] =
          Inr \<lparr>filepath = ?three, test = False, log_level = ''INFO'', log_to_file = False\<rparr>"
    by blast
  ultimately show ?thesis unfolding e by simp
qed

text \<open>
  C5 (amended). For every filepath, existing or not, a run in test mode never checks or
  opens the filepath: the only file system call of the whole run is the opening of
  \<open>logfile.log\<close> when \<open>--log-to-file\<close> is given, and no file other than the one
  \<open>logfile.log\<close> denotes changes. The run writes nothing to standard output, issues one
  INFO-level record with the message \<open>Test mode: skipping actual file processing.\<close>
  (with \<open>--test\<close> and no other flag as well) and returns, so the process exits with 0.
\<close>

theorem test_mode_skips_file:
  assumes "parse_args argv = Inr args" and "test args" and "root_handlers w = []"
    and "log_to_file args \<longrightarrow> fst (open_append ''logfile.log'' w) = Inr ()"
  shows "fst (main argv w) = Returned \<and> exit_code (fst (main argv w)) = 0 \<and>
         stdout (snd (main argv w)) = stdout w \<and>
         log_calls (snd (main argv w)) =
           log_calls w @ [(INFO, ''Test mode: skipping actual file processing.'')] \<and>
         accesses (snd (main argv w)) =
           accesses w @ (if log_to_file args then [Open_append ''logfile.log''] else []) \<and>
         (\<forall>k. k \<noteq> file_of w ''logfile.log'' \<longrightarrow> fs (snd (main argv w)) k = fs w k) \<and>
         (\<not> log_to_file args \<longrightarrow> fs (snd (main argv w)) = fs w)"
proof -
  let ?msg = "''Test mode: skipping actual file processing.''"
  from set_logger_reaches [OF assms(1,3,4)] obtain w1 L where
    s: "set_logger args w = (Inr (), w1)"
    and L: "log_level args = levelname L"
    and h: "root_handlers w1 =
             [if log_to_file args then FileHandler ''logfile.log'' Asctime_levelname_message
              else StreamHandler Asctime_levelname_message]"
    and o: "stdout w1 = stdout w" and c: "log_calls w1 = log_calls w"
    and a: "accesses w1 = accesses w @ (if log_to_file args then [Open_append ''logfile.log''] else [])"
    and f: "fs w1 = (if log_to_file args \<and> entry_at w ''logfile.log'' = None
                     then (fs w)(file_of w ''logfile.log'' \<mapsto> File True True []) else fs w)"
    and g: "file_of w1 = file_of w"
    by metis
  have m: "main argv w = (Returned, logging_log INFO ?msg w1)"
    using main_reaches [OF assms(1) s] assms(2) by (simp add: count_lines_test)
  show ?thesis
  proof (cases "log_to_file args")
    case False
    with h have "root_handlers w1 = [StreamHandler Asctime_levelname_message]" by simp
    from logging_log_console [OF this] m o c a f False show ?thesis by simp
  next
    case True
    with h have h': "root_handlers w1 = [FileHandler ''logfile.log'' Asctime_levelname_message]"
      by simp
    from set_logger_file_sink [OF assms(3) L True s] obtain r where
      "entry_at w1 ''logfile.log'' = Some (File r True (contents w ''logfile.log''))" ..
    from logging_log_file [OF h' this] m o c a f g True show ?thesis by simp
  qed
qed

theorem test_mode_skips_file_witness:
  "fst (main [''missing.txt'', ''--test''] (fresh Map.empty True ''2026-01-01 00:00:00'')) = Returned
   \<and> stdout (snd (main [''missing.txt'', ''--test''] (fresh Map.empty True ''2026-01-01 00:00:00''))) = []
   \<and> log_calls (snd (main [''missing.txt'', ''--test''] (fresh Map.empty True ''2026-01-01 00:00:00'')))
       = [(INFO, ''Test mode: skipping actual file processing.'')]
   \<and> accesses (snd (main [''missing.txt'', ''--test''] (fresh Map.empty True ''2026-01-01 00:00:00''))) = []
   \<and> fs (snd (main [''missing.txt'', ''--test''] (fresh Map.empty True ''2026-01-01 00:00:00'')))
       = Map.empty
   \<and> fst (main [''missing.txt'', ''-t'', ''--log-to-file'']
            (fresh Map.empty True ''2026-01-01 00:00:00'')) = Returned
   \<and> accesses (snd (main [''missing.txt'', ''-t'', ''--log-to-file'']
                      (fresh Map.empty True ''2026-01-01 00:00:00'')))
       = [Open_append ''logfile.log'']
   \<and> entry_at (snd (main [''missing.txt'', ''-t'', ''--log-to-file'']
                       (fresh Map.empty True ''2026-01-01 00:00:00''))) ''missing.txt'' = None"
proof -
  let ?w = "fresh Map.empty True ''2026-01-01 00:00:00''"
  let ?args = "\<lparr>filepath = ''missing.txt'', test = True, log_level = ''WARNING'', log_to_file = False\<rparr>"
  let ?args' = "\<lparr>filepath = ''missing.txt'', test = True, log_level = ''WARNING'', log_to_file = True\<rparr>"
  have p: "parse_args [''missing.txt'', ''--test''] = Inr ?args" by code_simp
  have p': "parse_args [''missing.txt'', ''-t'', ''--log-to-file''] = Inr ?args'" by code_simp
  have t: "test ?args" and t': "test ?args'" by simp_all
  have h: "root_handlers ?w = []" by (simp add: fresh_def)
  have o: "log_to_file ?args \<longrightarrow> fst (open_append ''logfile.log'' ?w) = Inr ()" by simp
  have o': "log_to_file ?args' \<longrightarrow> fst (open_append ''logfile.log'' ?w) = Inr ()"
    by (simp add: open_append_def entry_at_def fresh_def)
  have e: "stdout ?w = []" "log_calls ?w = []" "accesses ?w = []" "fs ?w = Map.empty"
    "file_of ?w = plain"
    by (simp_all add: fresh_def)
  have k: "file_of (snd (main [''missing.txt'', ''-t'', ''--log-to-file''] ?w)) = plain"
    by (simp add: main_file_of e)
  from test_mode_skips_file [OF p t h o] test_mode_skips_file [OF p' t' h o']
  show ?thesis unfolding e by (simp add: entry_at_def k)
qed

text \<open>
  C5 as stated fails: in test mode with \<open>--log-to-file\<close> the program does access the
  file system, since the logging initialiser opens, and here creates, \<open>logfile.log\<close>.
\<close>

theorem test_mode_counterexample:
  "entry_at (fresh Map.empty True ''2026-01-01 00:00:00'') ''logfile.log'' = None
   \<and> accesses (snd (main [''missing.txt'', ''--test'', ''--log-to-file'']
                      (fresh Map.empty True ''2026-01-01 00:00:00'')))
       = [Open_append ''logfile.log'']
   \<and> entry_at (snd (main [''missing.txt'', ''--test'', ''--log-to-file'']
                       (fresh Map.empty True ''2026-01-01 00:00:00''))) ''logfile.log''
       = Some (File True True [])"
  by code_simp

text \<open>
  C6. With \<open>--log-to-file\<close>, the records of the run that reach the threshold are
  appended, formatted and in order, to \<open>logfile.log\<close>, and standard error (the console
  of the logging module) is left as it was. Without it, the same lines go to standard
  error and the file system is left as it was, so \<open>logfile.log\<close> is not created.
\<close>

theorem log_sink_routing:
  assumes "parse_args argv = Inr args" and "root_handlers w = []"
    and "log_to_file args \<longrightarrow> fst (open_append ''logfile.log'' w) = Inr ()"
    and "log_level args = levelname L"
  shows "\<exists>calls.
           log_calls (snd (main argv w)) = log_calls w @ calls \<and>
           (if log_to_file args
            then stderr (snd (main argv w)) = stderr w \<and>
                 (\<exists>r wr. entry_at (snd (main argv w)) ''logfile.log'' =
                    Some (File r wr (contents w ''logfile.log''
                       @ concat (written (levelno L) Asctime_levelname_message (asctime w) calls))))
            else stderr (snd (main argv w)) =
                   stderr w @ map Text (written (levelno L) Asctime_levelname_message (asctime w) calls) \<and>
                 fs (snd (main argv w)) = fs w)"
proof -
  from set_logger_reaches [OF assms(1,2,3)] obtain w1 L' where
    s: "set_logger args w = (Inr (), w1)"
    and L': "log_level args = levelname L'" and n': "root_level w1 = levelno L'"
    and h: "root_handlers w1 =
             [if log_to_file args then FileHandler ''logfile.log'' Asctime_levelname_message
              else StreamHandler Asctime_levelname_message]"
    and e: "stderr w1 = stderr w" and c: "log_calls w1 = log_calls w"
    and t: "asctime w1 = asctime w"
    and f: "fs w1 = (if log_to_file args \<and> entry_at w ''logfile.log'' = None
                     then (fs w)(file_of w ''logfile.log'' \<mapsto> File True True []) else fs w)"
    and g: "file_of w1 = file_of w"
    by metis
  from threshold_level [OF assms(2,4) s] have n: "root_level w1 = levelno L" .
  have m: "snd (main argv w) = snd (count_lines_in_file (filepath args) (test args) w1)"
    using main_reaches [OF assms(1) s] by (simp split: prod.splits sum.splits)
  show ?thesis
  proof (cases "log_to_file args")
    case False
    with h have "root_handlers w1 = [StreamHandler Asctime_levelname_message]" by simp
    from count_lines_console_sink [OF this, of "filepath args" "test args"] False m e c t f n
    show ?thesis by auto
  next
    case True
    with h have h': "root_handlers w1 = [FileHandler ''logfile.log'' Asctime_levelname_message]"
      by simp
    from set_logger_file_sink [OF assms(2,4) True s] obtain r where
      "entry_at w1 ''logfile.log'' = Some (File r True (contents w ''logfile.log''))" ..
    from count_lines_file_sink [OF h' this, of "filepath args" "test args"] True m e c t n
    show ?thesis by (auto simp: entry_at_def)
  qed
qed


theorem log_sink_routing_witness:
  "stderr (snd (main [''b.txt'', ''--log-to-file''] (fresh Map.empty True ''2026-01-01 00:00:00''))) = []
   \<and> contents (snd (main [''b.txt'', ''--log-to-file''] (fresh Map.empty True ''2026-01-01 00:00:00'')))
         ''logfile.log''
       = ''2026-01-01 00:00:00 - ERROR - File not found: b.txt'' @ [CHR 0x0A]
   \<and> stderr (snd (main [''b.txt''] (fresh Map.empty True ''2026-01-01 00:00:00'')))
       = [Text (''2026-01-01 00:00:00 - ERROR - File not found: b.txt'' @ [CHR 0x0A])]
   \<and> entry_at (snd (main [''b.txt''] (fresh Map.empty True ''2026-01-01 00:00:00'')))
         ''logfile.log'' = None"
proof -
  let ?w = "fresh Map.empty True ''2026-01-01 00:00:00''"
  let ?a1 = "\<lparr>filepath = ''b.txt'', test = False, log_level = ''WARNING'', log_to_file = True\<rparr>"
  let ?a2 = "\<lparr>filepath = ''b.txt'', test = False, log_level = ''WARNING'', log_to_file = False\<rparr>"
  have p1: "parse_args [''b.txt'', ''--log-to-file''] = Inr ?a1" by code_simp
  have p2: "parse_args [''b.txt''] = Inr ?a2" by code_simp
  have h: "root_handlers ?w = []" by (simp add: fresh_def)
  have o1: "log_to_file ?a1 \<longrightarrow> fst (open_append ''logfile.log'' ?w) = Inr ()"
    by (simp add: open_append_def entry_at_def fresh_def)
  have o2: "log_to_file ?a2 \<longrightarrow> fst (open_append ''logfile.log'' ?w) = Inr ()" by simp
  have L1: "log_level ?a1 = levelname WARNING" and L2: "log_level ?a2 = levelname WARNING"
    by simp_all
  have c1: "log_calls (snd (main [''b.txt'', ''--log-to-file''] ?w)) = [(ERROR, ''File not found: b.txt'')]"
    by code_simp
  have c2: "log_calls (snd (main [''b.txt''] ?w)) = [(ERROR, ''File not found: b.txt'')]"
    by code_simp
  have e: "log_calls ?w = []" "stderr ?w = []" "asctime ?w = ''2026-01-01 00:00:00''"
    "contents ?w ''logfile.log'' = []" "fs ?w = Map.empty"
    by (simp_all add: fresh_def contents_def entry_at_def)
  from log_sink_routing [OF p1 h o1 L1] c1 e
  have "stderr (snd (main [''b.txt'', ''--log-to-file''] ?w)) = []
        \<and> contents (snd (main [''b.txt'', ''--log-to-file''] ?w)) ''logfile.log''
            = ''2026-01-01 00:00:00 - ERROR - File not found: b.txt'' @ [CHR 0x0A]"
    by (auto simp: contents_def written_def format_record_def)
  moreover from log_sink_routing [OF p2 h o2 L2] c2 e
  have "stderr (snd (main [''b.txt''] ?w))
          = [Text (''2026-01-01 00:00:00 - ERROR - File not found: b.txt'' @ [CHR 0x0A])]
        \<and> entry_at (snd (main [''b.txt''] ?w)) ''logfile.log'' = None"
    by (auto simp: written_def format_record_def entry_at_def)
  ultimately show ?thesis by simp
qed

text \<open>
  C7. After the logging initialiser, the threshold of the root logger is the configured
  level: a record below it leaves the sink (console and file system) untouched, and a
  record at or above it is written to the sink, formatted, with a line feed. Under the
  default WARNING the INFO records of the Line Counter are dropped.
\<close>

theorem threshold_is_log_level:
  assumes "root_handlers w = []" and "log_level args = levelname L"
    and "set_logger args w = (Inr (), w1)"
  shows "root_level w1 = levelno L \<and>
         (levelno l < levelno L \<longrightarrow>
            stderr (logging_log l msg w1) = stderr w1 \<and> fs (logging_log l msg w1) = fs w1) \<and>
         (levelno L \<le> levelno l \<longrightarrow>
            (if log_to_file args
             then stderr (logging_log l msg w1) = stderr w1 \<and>
                  (\<exists>r wr. entry_at (logging_log l msg w1) ''logfile.log'' =
                     Some (File r wr (contents w1 ''logfile.log''
                            @ format_record Asctime_levelname_message (asctime w1) l msg
                            @ [CHR 0x0A])))
             else stderr (logging_log l msg w1) =
                    stderr w1 @ [Text (format_record Asctime_levelname_message (asctime w1) l msg
                                       @ [CHR 0x0A])] \<and>
                  fs (logging_log l msg w1) = fs w1))"
proof (cases "log_to_file args")
  case False
  with set_logger_result [OF assms(1,2)] assms(3)
  have w1: "w1 = w\<lparr>root_handlers := [StreamHandler Asctime_levelname_message],
                    root_level := levelno L\<rparr>"
    by simp
  then have h: "root_handlers w1 = [StreamHandler Asctime_levelname_message]"
    and n: "root_level w1 = levelno L" by simp_all
  from False n show ?thesis
    by (simp add: logging_log_console [OF h] written_def)
next
  case True
  from set_logger_file_sink [OF assms(1,2) True assms(3)] obtain r where
    f: "entry_at w1 ''logfile.log'' = Some (File r True (contents w ''logfile.log''))" ..
  from set_logger_result [OF assms(1,2)] assms(3) True
  have h: "root_handlers w1 = [FileHandler ''logfile.log'' Asctime_levelname_message]"
    and n: "root_level w1 = levelno L"
    by (auto split: prod.splits sum.splits)
  from f have c: "contents w1 ''logfile.log'' = contents w ''logfile.log''"
    by (simp add: contents_def)
  have same: "(fs w1)(file_of w1 ''logfile.log'' \<mapsto> File r True (contents w ''logfile.log'')) = fs w1"
    using f unfolding entry_at_def by (rule map_upd_triv)
  from True n c f same show ?thesis
    by (auto simp: logging_log_file [OF h f] written_def entry_at_def)
qed


theorem threshold_is_log_level_witness:
  "root_level (snd (set_logger
       \<lparr>filepath = ''a.txt'', test = False, log_level = ''WARNING'', log_to_file = False\<rparr>
       (fresh Map.empty True ''2026-01-01 00:00:00''))) = 30
   \<and> stderr (logging_log INFO ''Total lines: 3'' (snd (set_logger
       \<lparr>filepath = ''a.txt'', test = False, log_level = ''WARNING'', log_to_file = False\<rparr>
       (fresh Map.empty True ''2026-01-01 00:00:00'')))) = []
   \<and> stderr (logging_log ERROR ''File not found: a.txt'' (snd (set_logger
       \<lparr>filepath = ''a.txt'', test = False, log_level = ''WARNING'', log_to_file = False\<rparr>
       (fresh Map.empty True ''2026-01-01 00:00:00''))))
       = [Text (''2026-01-01 00:00:00 - ERROR - File not found: a.txt'' @ [CHR 0x0A])]"
proof -
  let ?w = "fresh Map.empty True ''2026-01-01 00:00:00''"
  let ?args = "\<lparr>filepath = ''a.txt'', test = False, log_level = ''WARNING'', log_to_file = False\<rparr>"
  let ?w1 = "?w\<lparr>root_handlers := [StreamHandler Asctime_levelname_message],
                 root_level := levelno WARNING\<rparr>"
  have h: "root_handlers ?w = []" by (simp add: fresh_def)
  have L: "log_level ?args = levelname WARNING" by simp
  have s: "set_logger ?args ?w = (Inr (), ?w1)"
    using set_logger_result [OF h L] by simp
  have e: "stderr ?w1 = []" "asctime ?w1 = ''2026-01-01 00:00:00''" by (simp_all add: fresh_def)
  from threshold_is_log_level [OF h L s, of INFO "''Total lines: 3''"]
    threshold_is_log_level [OF h L s, of ERROR "''File not found: a.txt''"]
  show ?thesis unfolding s snd_conv e by (simp add: format_record_def)
qed

text \<open>
  C8. For an argument vector that holds a single string: whenever a namespace results,
  it has that string as the filepath and the defaults, test mode off, log level WARNING,
  logging to the console; and a namespace does result when argparse reads the string as
  a positional (not as an option, not as the separator). A string that begins with a
  minus sign is read as a positional when it looks like a negative number, in the
  decimal digits of any script.
\<close>

theorem defaults_for_lone_filepath:
  "(parse_args [p] = Inr args \<longrightarrow>
      args = \<lparr>filepath = p, test = False, log_level = ''WARNING'', log_to_file = False\<rparr>) \<and>
   (parse_optional p = Inr None \<and> p \<noteq> ''--'' \<longrightarrow>
      parse_args [p] =
        Inr \<lparr>filepath = p, test = False, log_level = ''WARNING'', log_to_file = False\<rparr>)"
proof -
  have pos: "parse_args [p] =
               Inr \<lparr>filepath = p, test = False, log_level = ''WARNING'', log_to_file = False\<rparr>"
    if "parse_optional p = Inr None" and "p \<noteq> ''--''"
    using that
    by (simp add: parse_args_def classify_single consume_single_Arg initial_state_def)
  have "args = \<lparr>filepath = p, test = False, log_level = ''WARNING'', log_to_file = False\<rparr>"
    if ok: "parse_args [p] = Inr args"
  proof (cases "p = ''--''")
    case True
    with ok parse_args_lone_separator show ?thesis by simp
  next
    case False
    show ?thesis
    proof (cases "parse_optional p")
      case (Inl e)
      with ok False show ?thesis by (simp add: parse_args_def classify_single)
    next
      case (Inr t)
      show ?thesis
      proof (cases t)
        case None
        with Inr False ok pos show ?thesis by simp
      next
        case (Some tup)
        with Inr have "parse_optional p = Inr (Some tup)" by simp
        from parse_args_lone_option [OF this False] ok show ?thesis by simp
      qed
    qed
  qed
  with pos show ?thesis by blast
qed

theorem defaults_for_lone_filepath_witness:
  "parse_args [''a.txt''] =
     Inr \<lparr>filepath = ''a.txt'', test = False, log_level = ''WARNING'', log_to_file = False\<rparr>
   \<and> parse_args [''-5''] =
     Inr \<lparr>filepath = ''-5'', test = False, log_level = ''WARNING'', log_to_file = False\<rparr>
   \<and> parse_args [[CHR ''-'', CHR 0xD9, CHR 0xA3]] =
     Inr \<lparr>filepath = [CHR ''-'', CHR 0xD9, CHR 0xA3], test = False, log_level = ''WARNING'',
          log_to_file = False\<rparr>"
proof -
  let ?three = "[CHR ''-'', CHR 0xD9, CHR 0xA3]"
  have a: "parse_optional ''a.txt'' = Inr None \<and> ''a.txt'' \<noteq> ''--''" by code_simp
  have c: "parse_optional ?three = Inr None \<and> ?three \<noteq> ''--''" by code_simp
  have "\<not> isl (parse_args [''-5''])" by code_simp
  then obtain args where b: "parse_args [''-5''] = Inr args"
    by (cases "parse_args [''-5'']") auto
  from defaults_for_lone_filepath [of "''-5''" args] b
  have "args = \<lparr>filepath = ''-5'', test = False, log_level = ''WARNING'', log_to_file = False\<rparr>"
    by blast
  with b defaults_for_lone_filepath [of "''a.txt''" undefined]
    defaults_for_lone_filepath [of ?three undefined] a c show ?thesis by blast
qed

text \<open>
  C9. An existing empty file, processed in non-test mode, gives the same message with the
  count 0, and the process exits with 0.
\<close>

theorem empty_file_reports_zero:
  assumes "parse_args argv = Inr args" and "\<not> test args" and "root_handlers w = []"
    and "log_to_file args \<longrightarrow> fst (open_append ''logfile.log'' w) = Inr ()"
    and "entry_at w (filepath args) = Some (File True wr [])"
  shows "fst (main argv w) = Returned \<and> exit_code (fst (main argv w)) = 0 \<and>
         stdout (snd (main argv w)) =
           stdout w @ [Text ('' '' @ filepath args @ '' has 0 lines.'' @ [CHR 0x0A])]"
proof -
  have "readlines [] = Inr []" by (simp add: readlines_def)
  from main_prints [OF assms this] show ?thesis by (simp add: str_of_nat_0)
qed

theorem empty_file_reports_zero_witness:
  "fst (main [''empty.txt'']
          (fresh (Map.empty(''empty.txt'' \<mapsto> File True True [])) True ''2026-01-01 00:00:00''))
     = Returned
   \<and> stdout (snd (main [''empty.txt'']
          (fresh (Map.empty(''empty.txt'' \<mapsto> File True True [])) True ''2026-01-01 00:00:00'')))
     = [Text ('' empty.txt has 0 lines.'' @ [CHR 0x0A])]"
proof -
  let ?w = "fresh (Map.empty(''empty.txt'' \<mapsto> File True True [])) True ''2026-01-01 00:00:00''"
  let ?args = "\<lparr>filepath = ''empty.txt'', test = False, log_level = ''WARNING'', log_to_file = False\<rparr>"
  have p: "parse_args [''empty.txt''] = Inr ?args" by code_simp
  have t: "\<not> test ?args" by simp
  have h: "root_handlers ?w = []" by (simp add: fresh_def)
  have o: "log_to_file ?args \<longrightarrow> fst (open_append ''logfile.log'' ?w) = Inr ()" by simp
  have f: "entry_at ?w (filepath ?args) = Some (File True True [])"
    by (simp add: fresh_def entry_at_def)
  have e: "stdout ?w = []" by (simp add: fresh_def)
  from empty_file_reports_zero [OF p t h o f] show ?thesis
    unfolding e by simp
qed

text \<open>
  C10. The Line Counter is deterministic in the path, the test-mode flag and the file
  system entry the path denotes (the file's bytes and permissions, or its absence): two runs
  from worlds that agree on these, whatever else differs (logging configuration, clock,
  other files, earlier output), append the same text to standard output, issue the same
  log records (which carry the computed count) and end in the same way.
\<close>

theorem line_counter_deterministic:
  assumes "entry_at w1 p = entry_at w2 p"
  shows "\<exists>out calls.
           stdout (snd (count_lines_in_file p t w1)) = stdout w1 @ out \<and>
           stdout (snd (count_lines_in_file p t w2)) = stdout w2 @ out \<and>
           log_calls (snd (count_lines_in_file p t w1)) = log_calls w1 @ calls \<and>
           log_calls (snd (count_lines_in_file p t w2)) = log_calls w2 @ calls \<and>
           fst (count_lines_in_file p t w1) = fst (count_lines_in_file p t w2)"
proof (cases t)
  case True
  then show ?thesis by (simp add: count_lines_test)
next
  case False
  show ?thesis
  proof (cases "entry_at w1 p")
    case None
    with assms False show ?thesis by (simp add: count_lines_absent)
  next
    case (Some e)
    show ?thesis
    proof (cases e)
      case Directory
      with Some assms False show ?thesis by (simp add: count_lines_directory)
    next
      case (File r wr bytes)
      show ?thesis
      proof (cases r)
        case False
        with File Some assms \<open>\<not> t\<close> show ?thesis by (simp add: count_lines_unreadable)
      next
        case True
        show ?thesis
        proof (cases "readlines bytes")
          case (Inl x)
          with True File Some assms \<open>\<not> t\<close> show ?thesis
            by (simp add: count_lines_undecodable)
        next
          case (Inr lines)
          with True File Some assms \<open>\<not> t\<close> show ?thesis
            by (simp add: count_lines_present print_def)
        qed
      qed
    qed
  qed
qed

theorem line_counter_deterministic_witness:
  "\<exists>out calls.
     stdout (snd (count_lines_in_file ''a.txt'' False
        (fresh (Map.empty(''a.txt'' \<mapsto> File True True [CHR ''x'', CHR 0x0A])) True ''2026-01-01 00:00:00'')))
       = [] @ out \<and>
     stdout (snd (count_lines_in_file ''a.txt'' False
        \<lparr>file_of = (\<lambda>p. if p = ''a.txt'' then ''/data/a.txt'' else p),
          fs = Map.empty(''/data/a.txt'' \<mapsto> File True True [CHR ''x'', CHR 0x0A],
                         ''other.txt'' \<mapsto> Directory),
          cwd_writable = False, accesses = [], stdout = [Help_message], stderr = [],
          root_level = 10,
          root_handlers = [FileHandler ''logfile.log'' Asctime_levelname_message],
          log_calls = [], asctime = ''2027-12-31 23:59:59''\<rparr>))
       = [Help_message] @ out \<and>
     log_calls (snd (count_lines_in_file ''a.txt'' False
        (fresh (Map.empty(''a.txt'' \<mapsto> File True True [CHR ''x'', CHR 0x0A])) True ''2026-01-01 00:00:00'')))
       = [] @ calls \<and>
     log_calls (snd (count_lines_in_file ''a.txt'' False
        \<lparr>file_of = (\<lambda>p. if p = ''a.txt'' then ''/data/a.txt'' else p),
          fs = Map.empty(''/data/a.txt'' \<mapsto> File True True [CHR ''x'', CHR 0x0A],
                         ''other.txt'' \<mapsto> Directory),
          cwd_writable = False, accesses = [], stdout = [Help_message], stderr = [],
          root_level = 10,
          root_handlers = [FileHandler ''logfile.log'' Asctime_levelname_message],
          log_calls = [], asctime = ''2027-12-31 23:59:59''\<rparr>))
       = [] @ calls \<and>
     out = [Text ('' a.txt has 1 lines.'' @ [CHR 0x0A])]"
proof -
  let ?w1 = "fresh (Map.empty(''a.txt'' \<mapsto> File True True [CHR ''x'', CHR 0x0A])) True ''2026-01-01 00:00:00''"
  let ?w2 = "\<lparr>file_of = (\<lambda>p. if p = ''a.txt'' then ''/data/a.txt'' else p),
          fs = Map.empty(''/data/a.txt'' \<mapsto> File True True [CHR ''x'', CHR 0x0A],
                         ''other.txt'' \<mapsto> Directory),
          cwd_writable = False, accesses = [], stdout = [Help_message], stderr = [],
          root_level = 10,
          root_handlers = [FileHandler ''logfile.log'' Asctime_levelname_message],
          log_calls = [], asctime = ''2027-12-31 23:59:59''\<rparr>"
  have f: "entry_at ?w1 ''a.txt'' = entry_at ?w2 ''a.txt''" by (simp add: fresh_def entry_at_def)
  have r: "readlines [CHR ''x'', CHR 0x0A] = Inr [[120, 10]]" by code_simp
  have s: "str_of_nat (length [[120, 10::nat]]) = ''1''" by code_simp
  have o: "stdout (snd (count_lines_in_file ''a.txt'' False ?w1))
             = [Text ('' a.txt has 1 lines.'' @ [CHR 0x0A])]"
    using count_lines_present [of ?w1 "''a.txt''" True "[CHR ''x'', CHR 0x0A]", OF _ r]
    unfolding s by (simp add: fresh_def print_def entry_at_def)
  have e: "stdout ?w1 = []" "log_calls ?w1 = []" "stdout ?w2 = [Help_message]" "log_calls ?w2 = []"
    by (simp_all add: fresh_def)
  from line_counter_deterministic [OF f, of False] obtain out calls where
    "stdout (snd (count_lines_in_file ''a.txt'' False ?w1)) = stdout ?w1 @ out"
    "stdout (snd (count_lines_in_file ''a.txt'' False ?w2)) = stdout ?w2 @ out"
    "log_calls (snd (count_lines_in_file ''a.txt'' False ?w1)) = log_calls ?w1 @ calls"
    "log_calls (snd (count_lines_in_file ''a.txt'' False ?w2)) = log_calls ?w2 @ calls"
    by blast
  with o e show ?thesis by auto
qed

end
